theory Spec2Isabelle
  imports Main "HOL-Library.Code_Target_Nat"
begin

section \<open>Python strings and values\<close>

text \<open>
  A Python \<open>str\<close> is a sequence of Unicode code points, and \<open>len\<close> counts code points.
  The sources use characters outside Latin-1 (the ellipsis U+2026, the em dash U+2014), so a
  string is modelled as a list of code points (\<open>nat\<close>), and \<open>lit\<close> turns an ASCII literal
  into one. White space is the set \<open>str.isspace\<close> accepts. Case mapping is Python's for
  code points below 256, and code points from 256 on are taken as caseless; no code point from
  128 on has one of the letters of \<open>cust_\<close> in its lower case, so the test
  \<open>raw_lower.startswith("cust_")\<close> is the same under Python's full case mapping.

  The class \<open>\w\<close> of a \<open>str\<close> pattern is \<open>str.isalnum\<close> and the underscore. Below 256 it
  is written out (\<open>latin_word\<close>); from 256 on it is the Unicode database of the running
  Python, taken as the parameter \<open>w\<close>, the set of the alphanumeric code points.
\<close>

type_synonym uchar = nat
type_synonym ustr = "uchar list"

definition lit :: "string \<Rightarrow> ustr" where
  "lit s = map of_char s"

definition isspace :: "uchar \<Rightarrow> bool" where
  "isspace c \<longleftrightarrow>
     (9 \<le> c \<and> c \<le> 13) \<or> (28 \<le> c \<and> c \<le> 32) \<or> c = 133 \<or> c = 160 \<or> c = 5760 \<or>
     (8192 \<le> c \<and> c \<le> 8202) \<or> c = 8232 \<or> c = 8233 \<or> c = 8239 \<or> c = 8287 \<or> c = 12288"

definition lower_char :: "uchar \<Rightarrow> uchar" where
  "lower_char c =
     (if (65 \<le> c \<and> c \<le> 90) \<or> (192 \<le> c \<and> c \<le> 222 \<and> c \<noteq> 215) then c + 32 else c)"

definition lower :: "ustr \<Rightarrow> ustr" where
  "lower s = map lower_char s"

definition ascii_letter :: "uchar \<Rightarrow> bool" where
  "ascii_letter c \<longleftrightarrow> (65 \<le> c \<and> c \<le> 90) \<or> (97 \<le> c \<and> c \<le> 122)"

definition latin_word :: "uchar \<Rightarrow> bool" where
  "latin_word c \<longleftrightarrow>
     ascii_letter c \<or> (48 \<le> c \<and> c \<le> 57) \<or> c = 95 \<or>
     c = 170 \<or> c = 178 \<or> c = 179 \<or> c = 181 \<or> c = 185 \<or> c = 186 \<or>
     (188 \<le> c \<and> c \<le> 190) \<or> (192 \<le> c \<and> c \<le> 214) \<or> (216 \<le> c \<and> c \<le> 246) \<or>
     (248 \<le> c \<and> c \<le> 255)"

definition isword :: "(uchar \<Rightarrow> bool) \<Rightarrow> uchar \<Rightarrow> bool" where
  "isword w c \<longleftrightarrow> (if c < 256 then latin_word c else w c)"

definition lstrip :: "ustr \<Rightarrow> ustr" where
  "lstrip s = dropWhile isspace s"

definition rstrip :: "ustr \<Rightarrow> ustr" where
  "rstrip s = rev (dropWhile isspace (rev s))"

definition strip :: "ustr \<Rightarrow> ustr" where
  "strip s = rstrip (lstrip s)"

definition startswith :: "ustr \<Rightarrow> ustr \<Rightarrow> bool" where
  "startswith s p \<longleftrightarrow> take (length p) s = p"

text \<open>\<open>isin sub s\<close> is Python's \<open>sub in s\<close> on strings.\<close>

fun isin :: "ustr \<Rightarrow> ustr \<Rightarrow> bool" where
  "isin sub [] = (sub = [])"
| "isin sub (c # cs) = (startswith (c # cs) sub \<or> isin sub cs)"

text \<open>\<open>join sep parts\<close> is \<open>sep.join(parts)\<close>.\<close>

fun join :: "ustr \<Rightarrow> ustr list \<Rightarrow> ustr" where
  "join sep [] = []"
| "join sep [p] = p"
| "join sep (p # q # ps) = p @ sep @ join sep (q # ps)"

text \<open>
  Values of type \<open>Any\<close>: what a JSON document, a message content or a tool result can
  hold. A dict is an association list in insertion order, read at the first entry of a key.
\<close>

datatype pyval =
    VNone
  | VBool bool
  | VInt int
  | VStr ustr
  | VList "pyval list"
  | VDict "(ustr \<times> pyval) list"

fun truthy :: "pyval \<Rightarrow> bool" where
  "truthy VNone = False"
| "truthy (VBool b) = b"
| "truthy (VInt i) = (i \<noteq> 0)"
| "truthy (VStr s) = (s \<noteq> [])"
| "truthy (VList xs) = (xs \<noteq> [])"
| "truthy (VDict d) = (d \<noteq> [])"

text \<open>\<open>dict_get v k\<close> is \<open>v.get(k)\<close> for a dict \<open>v\<close>, with \<open>None\<close> for a missing key.\<close>

definition dict_get :: "(ustr \<times> pyval) list \<Rightarrow> ustr \<Rightarrow> pyval" where
  "dict_get d k = (case map_of d k of None \<Rightarrow> VNone | Some v \<Rightarrow> v)"

text \<open>\<open>dict_set d k v\<close> is \<open>d[k] = v\<close>: a key already there keeps its place.\<close>

fun dict_set :: "(ustr \<times> pyval) list \<Rightarrow> ustr \<Rightarrow> pyval \<Rightarrow> (ustr \<times> pyval) list" where
  "dict_set [] k v = [(k, v)]"
| "dict_set ((k', v') # d) k v = (if k' = k then (k, v) # d else (k', v') # dict_set d k v)"

text \<open>
  \<open>str(v)\<close>: a string is itself; the text Python prints for any other value is the
  runtime's, taken as the parameter \<open>repr\<close>.
\<close>

definition py_str :: "(pyval \<Rightarrow> ustr) \<Rightarrow> pyval \<Rightarrow> ustr" where
  "py_str repr v = (case v of VStr s \<Rightarrow> s | _ \<Rightarrow> repr v)"

text \<open>
  The exceptions that leave the embedded functions; \<open>ToolNodeError\<close> stands for whatever
  the tool node raises.
\<close>

datatype error =
  ValueError | RuntimeError | AttributeError | TypeError | ToolNodeError | UnicodeEncodeError

section \<open>Regular expressions of \<open>utils.py\<close>\<close>

text \<open>
  The two patterns of \<open>extract_email_or_cust_id\<close> are built from a word boundary, a test
  of one character, a greedy repetition of a character class and sequencing. \<open>ends r s i\<close>
  lists the positions where a match of \<open>r\<close> started at \<open>i\<close> can end, in the order
  Python's backtracking matcher tries them (a greedy repetition tries its longest run first);
  \<open>re.search\<close> takes the leftmost start that has a match and, there, the first end.
\<close>

datatype rx =
    Bnd
  | One "uchar \<Rightarrow> bool"
  | Many nat "uchar \<Rightarrow> bool"
  | Seq rx rx

definition word_at :: "(uchar \<Rightarrow> bool) \<Rightarrow> ustr \<Rightarrow> nat \<Rightarrow> bool" where
  "word_at w s i \<longleftrightarrow> i < length s \<and> isword w (s ! i)"

definition word_boundary :: "(uchar \<Rightarrow> bool) \<Rightarrow> ustr \<Rightarrow> nat \<Rightarrow> bool" where
  "word_boundary w s i \<longleftrightarrow> ((0 < i \<and> word_at w s (i - 1)) \<noteq> word_at w s i)"

fun ends :: "(uchar \<Rightarrow> bool) \<Rightarrow> rx \<Rightarrow> ustr \<Rightarrow> nat \<Rightarrow> nat list" where
  "ends w Bnd s i = (if word_boundary w s i then [i] else [])"
| "ends w (One p) s i = (if i < length s \<and> p (s ! i) then [Suc i] else [])"
| "ends w (Many n p) s i =
     map (\<lambda>k. i + k) (rev [n..<Suc (length (takeWhile p (drop i s)))])"
| "ends w (Seq a b) s i = concat (map (ends w b s) (ends w a s i))"

definition search :: "(uchar \<Rightarrow> bool) \<Rightarrow> rx \<Rightarrow> ustr \<Rightarrow> ustr option" where
  "search w r s =
     (case List.find (\<lambda>i. ends w r s i \<noteq> []) [0..<Suc (length s)] of
        None \<Rightarrow> None
      | Some i \<Rightarrow> Some (take (hd (ends w r s i) - i) (drop i s)))"

text \<open>
  \<open>ci p\<close>: the pattern character \<open>p\<close>, a lower-case ASCII letter or the underscore, under
  \<open>re.IGNORECASE\<close>. A \<open>str\<close> pattern matches by Unicode case: besides the two cases of the
  letter, \<open>s\<close> matches U+017F (long s), \<open>k\<close> matches U+212A (the Kelvin sign) and \<open>i\<close>
  matches U+0130 and U+0131; no other ASCII letter, and not the underscore, has a further
  match.
\<close>

definition ci :: "uchar \<Rightarrow> uchar \<Rightarrow> bool" where
  "ci p c \<longleftrightarrow>
     lower_char c = p \<or> (p = 115 \<and> c = 383) \<or> (p = 107 \<and> c = 8490) \<or>
     (p = 105 \<and> (c = 304 \<or> c = 305))"

text \<open>\<open>\bcust_\w+\b\<close> with \<open>re.IGNORECASE\<close>.\<close>

definition cust_rx :: "(uchar \<Rightarrow> bool) \<Rightarrow> rx" where
  "cust_rx w =
     Seq Bnd (Seq (One (ci 99)) (Seq (One (ci 117)) (Seq (One (ci 115)) (Seq (One (ci 116))
       (Seq (One (ci 95)) (Seq (Many 1 (isword w)) Bnd))))))"

definition local_char :: "(uchar \<Rightarrow> bool) \<Rightarrow> uchar \<Rightarrow> bool" where
  "local_char w c \<longleftrightarrow> isword w c \<or> c = 46 \<or> c = 45 \<or> c = 43"

definition domain_char :: "(uchar \<Rightarrow> bool) \<Rightarrow> uchar \<Rightarrow> bool" where
  "domain_char w c \<longleftrightarrow> isword w c \<or> c = 46 \<or> c = 45"

text \<open>\<open>\b[\w.\-+]+@[\w.\-]+\.[a-zA-Z]{2,}\b\<close>.\<close>

definition email_rx :: "(uchar \<Rightarrow> bool) \<Rightarrow> rx" where
  "email_rx w =
     Seq Bnd (Seq (Many 1 (local_char w)) (Seq (One (\<lambda>c. c = 64)) (Seq (Many 1 (domain_char w))
       (Seq (One (\<lambda>c. c = 46)) (Seq (Many 2 ascii_letter) Bnd)))))"

section \<open>\<open>utils.py\<close>\<close>

definition extract_email_or_cust_id :: "(uchar \<Rightarrow> bool) \<Rightarrow> ustr \<Rightarrow> ustr option" where
  "extract_email_or_cust_id w raw =
     (if raw = [] then None
      else let s = strip raw in
        (case search w (cust_rx w) s of
           Some m \<Rightarrow> Some (strip m)
         | None \<Rightarrow>
            (case search w (email_rx w) s of
               Some m \<Rightarrow> Some (strip m)
             | None \<Rightarrow> None)))"

text \<open>The characters \<open>.?!"'\<close> that end a sentence, and the ellipsis U+2026.\<close>

definition sentence_end :: "uchar list" where
  "sentence_end = [46, 63, 33, 34, 39]"

definition ellipsis :: uchar where
  "ellipsis = 8230"

definition finish_if_chopped :: "ustr \<Rightarrow> ustr" where
  "finish_if_chopped text =
     (if text = [] \<or> length text < 200 then text
      else let t = rstrip text in
        if t \<noteq> [] \<and> last t \<notin> set sentence_end then t @ [ellipsis] else text)"

definition anything_else :: ustr where
  "anything_else = lit ''Is there anything else I can help you with?''"

definition sanitize_internal_jargon :: "ustr \<Rightarrow> ustr" where
  "sanitize_internal_jargon text =
     (if text = [] then []
      else let t = lower (strip text) in
        if isin (lit ''route'') t \<and> (isin (lit ''has been set'') t \<or> isin (lit ''set to '') t)
        then anything_else
        else if isin (lit ''set to end'') t \<or> isin (lit ''set to retention'') t \<or>
                isin (lit ''set to cancel'') t \<or> isin (lit ''set to billing'') t \<or>
                isin (lit ''set to tech'') t
        then anything_else
        else text)"

text \<open>
  One block of a list content: a dict contributes its \<open>text\<close> when its \<open>type\<close> is
  \<open>"text"\<close> and it has the key, a string contributes itself, anything else nothing.
\<close>

definition block_part :: "(pyval \<Rightarrow> ustr) \<Rightarrow> pyval \<Rightarrow> ustr list" where
  "block_part repr block =
     (case block of
        VDict d \<Rightarrow>
          (if dict_get d (lit ''type'') = VStr (lit ''text'') \<and> map_of d (lit ''text'') \<noteq> None
           then [strip (py_str repr (dict_get d (lit ''text'')))] else [])
      | VStr s \<Rightarrow> [strip s]
      | _ \<Rightarrow> [])"

definition extract_message_text :: "(pyval \<Rightarrow> ustr) \<Rightarrow> pyval \<Rightarrow> ustr" where
  "extract_message_text repr content =
     (case content of
        VNone \<Rightarrow> []
      | VStr s \<Rightarrow> sanitize_internal_jargon (finish_if_chopped (strip s))
      | VList blocks \<Rightarrow>
          sanitize_internal_jargon (finish_if_chopped
            (join [10] (filter (\<lambda>p. p \<noteq> []) (concat (map (block_part repr) blocks)))))
      | _ \<Rightarrow> sanitize_internal_jargon (finish_if_chopped (strip (py_str repr content))))"

definition fallback_reply_for_route :: "ustr \<Rightarrow> ustr" where
  "fallback_reply_for_route route =
     (let r = lower (strip route) in
      if r = lit ''billing'' then
        lit ''I'm checking your billing details now'' @ [8212] @
        lit ''I'll have an answer for you in just a moment.''
      else if r = lit ''retention'' then
        lit ''I'm pulling together some options that might work better for you'' @ [8212] @
        lit ''give me a moment.''
      else if r = lit ''cancel'' then
        lit ''I've got your request. One moment while I take care of that.''
      else if r = lit ''tech'' then
        lit ''I'm looking up the best steps for you'' @ [8212] @ lit ''one moment.''
      else if r = lit ''end'' then
        lit ''Thanks for reaching out. We're all set here; reach out anytime if something else comes up.''
      else lit ''I'm on it'' @ [8212] @ lit ''one moment and I'll get back to you.'')"

section \<open>\<open>data.py\<close>: the cached resources\<close>

text \<open>
  A row of the customer directory is what \<open>csv.DictReader\<close> gives for a line with as many
  fields as the header: column names to strings. The rule table has the shape of the
  specification's RetentionRuleSet: category, then tier or sub-category key, then the list of
  offers (any JSON values). \<open>files\<close> is what the two resource files hold (\<open>None\<close>: the path
  does not exist); \<open>cache\<close> is the pair of module variables \<open>_customers\<close> and \<open>_rules\<close>.
\<close>

type_synonym row = "(ustr \<times> ustr) list"
type_synonym rules = "(ustr \<times> (ustr \<times> pyval list) list) list"

record files =
  customers_file :: "row list option"
  rules_file :: "rules option"

record cache =
  customers_c :: "row list option"
  rules_c :: "rules option"

definition load_resources :: "files \<Rightarrow> cache \<Rightarrow> cache" where
  "load_resources fs c =
     \<lparr> customers_c = Some (case customers_file fs of None \<Rightarrow> [] | Some rows \<Rightarrow> rows),
       rules_c = Some (case rules_file fs of None \<Rightarrow> [] | Some r \<Rightarrow> r) \<rparr>"

definition get_customers :: "files \<Rightarrow> cache \<Rightarrow> row list \<times> cache" where
  "get_customers fs c =
     (let c' = (if customers_c c = None then load_resources fs c else c)
      in (case customers_c c' of None \<Rightarrow> [] | Some rows \<Rightarrow> rows, c'))"

definition get_rules :: "files \<Rightarrow> cache \<Rightarrow> rules \<times> cache" where
  "get_rules fs c =
     (let c' = (if rules_c c = None then load_resources fs c else c)
      in (case rules_c c' of None \<Rightarrow> [] | Some r \<Rightarrow> r, c'))"

section \<open>\<open>tools.py\<close>\<close>

definition REASON_MAP :: "(ustr \<times> ustr \<times> ustr option) list" where
  "REASON_MAP =
     [(lit ''financial_hardship'', lit ''financial_hardship'', None),
      (lit ''financial'', lit ''financial_hardship'', None),
      (lit ''money'', lit ''financial_hardship'', None),
      (lit ''afford'', lit ''financial_hardship'', None),
      (lit ''overheating'', lit ''product_issues'', Some (lit ''overheating'')),
      (lit ''battery'', lit ''product_issues'', Some (lit ''battery_issues'')),
      (lit ''battery_issues'', lit ''product_issues'', Some (lit ''battery_issues'')),
      (lit ''product_issues'', lit ''product_issues'', Some (lit ''overheating'')),
      (lit ''service_value'', lit ''service_value'', Some (lit ''care_plus_premium'')),
      (lit ''value'', lit ''service_value'', Some (lit ''care_plus_premium''))]"

definition TIER_KEY :: "(ustr \<times> ustr) list" where
  "TIER_KEY =
     [(lit ''premium'', lit ''premium_customers''),
      (lit ''regular'', lit ''regular_customers''),
      (lit ''new'', lit ''new_customers'')]"

definition row_get :: "row \<Rightarrow> ustr \<Rightarrow> ustr" where
  "row_get r k = (case map_of r k of None \<Rightarrow> [] | Some v \<Rightarrow> v)"

text \<open>\<open>{"found": True, **row}\<close>: a column named \<open>found\<close> would overwrite the flag.\<close>

definition found_record :: "row \<Rightarrow> pyval" where
  "found_record r =
     VDict (foldl (\<lambda>d (k, v). dict_set d k (VStr v)) [(lit ''found'', VBool True)] r)"

definition not_found :: "ustr \<Rightarrow> pyval" where
  "not_found msg = VDict [(lit ''found'', VBool False), (lit ''message'', VStr msg)]"

definition invalid_input_message :: ustr where
  "invalid_input_message =
     lit ''Invalid input: pass only an email (e.g. name@email.com) or customer_id (e.g. CUST_001). Do not pass the customer's request or question text. If the customer has not given an email or ID yet, ask them for it.''"

definition get_customer_data :: "(uchar \<Rightarrow> bool) \<Rightarrow> files \<Rightarrow> cache \<Rightarrow> ustr \<Rightarrow> pyval \<times> cache" where
  "get_customer_data w fs c email =
     (let raw0 = strip email in
      if raw0 = [] then (not_found (lit ''No email or customer_id provided.''), c)
      else
        let raw = (case extract_email_or_cust_id w raw0 of
                     Some lookup \<Rightarrow> if lookup \<noteq> [] then lookup else raw0
                   | None \<Rightarrow> raw0);
            raw_lower = lower raw
        in
        if 64 \<notin> set raw \<and> \<not> startswith raw_lower (lit ''cust_'')
        then (not_found invalid_input_message, c)
        else
          let (customers, c') = get_customers fs c in
          if startswith raw_lower (lit ''cust_'') then
            (case List.find (\<lambda>r. lower (strip (row_get r (lit ''customer_id''))) = raw_lower) customers of
               Some r \<Rightarrow> (found_record r, c')
             | None \<Rightarrow>
                 (not_found (lit ''No customer found with customer_id '' @ raw @ lit ''.''), c'))
          else
            (case List.find (\<lambda>r. lower (strip (row_get r (lit ''email''))) = raw_lower) customers of
               Some r \<Rightarrow> (found_record r, c')
             | None \<Rightarrow>
                 (not_found (lit ''No customer found with email '' @ raw @
                    lit ''. Valid examples: sarah.chen@email.com, jennifer.lee@email.com, or CUST_001.''), c')))"

text \<open>
  The loop over \<open>REASON_MAP\<close>: the first key that occurs in the normalised reason, or in the
  normalised reason without its underscores; \<open>financial_hardship\<close> when none does.
\<close>

definition resolve_reason :: "ustr \<Rightarrow> ustr \<times> ustr option" where
  "resolve_reason reason_raw =
     (case List.find (\<lambda>(r, tk, sk). isin r reason_raw \<or> isin r (filter (\<lambda>c. c \<noteq> 95) reason_raw))
             REASON_MAP of
        Some (r, tk, sk) \<Rightarrow> (tk, sk)
      | None \<Rightarrow> (lit ''financial_hardship'', None))"

definition or_default :: "ustr option \<Rightarrow> ustr \<Rightarrow> ustr" where
  "or_default v d = (case v of None \<Rightarrow> d | Some s \<Rightarrow> if s = [] then d else s)"

definition category_get :: "(ustr \<times> pyval list) list \<Rightarrow> ustr \<Rightarrow> pyval list" where
  "category_get cat k = (case map_of cat k of None \<Rightarrow> [] | Some os \<Rightarrow> os)"

definition normalize_reason :: "ustr \<Rightarrow> ustr" where
  "normalize_reason reason = map (\<lambda>c. if c = 32 then 95 else c) (lower (strip reason))"

definition calculate_retention_offer ::
  "files \<Rightarrow> cache \<Rightarrow> ustr \<Rightarrow> ustr \<Rightarrow> pyval \<times> cache" where
  "calculate_retention_offer fs c customer_tier reason =
     (let tier = lower (strip customer_tier);
          reason_raw = normalize_reason reason
      in
      case map_of TIER_KEY tier of
        None \<Rightarrow>
          (VDict [(lit ''offers'', VList []),
                  (lit ''message'', VStr (lit ''Invalid customer_tier: '' @ customer_tier @
                     lit ''. Use premium, regular, or new.''))], c)
      | Some tier_key \<Rightarrow>
          let (rules, c') = get_rules fs c in
          if rules = [] then
            (VDict [(lit ''offers'', VList []),
                    (lit ''message'', VStr (lit ''Retention rules not available.''))], c')
          else
            let (top_key, sub_key) = resolve_reason reason_raw;
                offers =
                  (if top_key = lit ''financial_hardship'' \<and> map_of rules top_key \<noteq> None
                   then category_get (the (map_of rules top_key)) tier_key
                   else if top_key = lit ''product_issues'' \<and> map_of rules top_key \<noteq> None
                   then category_get (the (map_of rules top_key)) (or_default sub_key (lit ''overheating''))
                   else if top_key = lit ''service_value'' \<and> map_of rules top_key \<noteq> None
                   then category_get (the (map_of rules top_key)) (or_default sub_key (lit ''care_plus_premium''))
                   else [])
            in (VDict [(lit ''offers'', VList offers),
                       (lit ''customer_tier'', VStr tier),
                       (lit ''reason'', VStr reason_raw)], c'))"

text \<open>
  \<open>datetime.now(tz=timezone.utc).isoformat()\<close>: the clock's reading is a parameter, the
  text is \<open>YYYY-MM-DDTHH:MM:SS[.ffffff]+00:00\<close>.
\<close>

record datetime =
  year :: nat
  month :: nat
  day :: nat
  hour :: nat
  minute :: nat
  second :: nat
  microsecond :: nat

fun decimal :: "nat \<Rightarrow> ustr" where
  "decimal n = (if n < 10 then [48 + n] else decimal (n div 10) @ [48 + n mod 10])"

declare decimal.simps [simp del]

definition zero_padded :: "nat \<Rightarrow> nat \<Rightarrow> ustr" where
  "zero_padded w n = replicate (w - length (decimal n)) 48 @ decimal n"

definition isoformat :: "datetime \<Rightarrow> ustr" where
  "isoformat d =
     zero_padded 4 (year d) @ [45] @ zero_padded 2 (month d) @ [45] @ zero_padded 2 (day d) @
     [84] @ zero_padded 2 (hour d) @ [58] @ zero_padded 2 (minute d) @ [58] @
     zero_padded 2 (second d) @
     (if microsecond d = 0 then [] else [46] @ zero_padded 6 (microsecond d)) @
     lit ''+00:00''"

text \<open>
  The status log is the text of the file, on a system whose line separator is the line feed
  (a file opened in text mode writes \<open>\n\<close> as the system's separator). \<open>io\<close> is what the
  operating system does with the request:
  \<^item> \<open>Written\<close>: the directory is there or is created, the file opens and the line is
    written;
  \<^item> \<open>OpenFails e\<close>: \<open>mkdir\<close> or \<open>open\<close> raises an \<open>OSError\<close> whose text is \<open>e\<close>; the
    file is not touched;
  \<^item> \<open>WriteFails e part\<close>: the file opens, and writing or closing raises an \<open>OSError\<close>
    whose text is \<open>e\<close> when \<open>part\<close> has reached the file. The function has no rollback,
    so \<open>part\<close> stays.

  The line is encoded as UTF-8 before anything is written. A lone surrogate (U+D800 to
  U+DFFF) has no encoding: \<open>f.write\<close> raises \<open>UnicodeEncodeError\<close>, which is not an
  \<open>OSError\<close> and leaves the function, the file open by then and nothing written.
\<close>

datatype io = Written | OpenFails ustr | WriteFails ustr ustr

definition surrogate :: "uchar \<Rightarrow> bool" where
  "surrogate c \<longleftrightarrow> 55296 \<le> c \<and> c \<le> 57343"

definition log_line :: "ustr \<Rightarrow> ustr \<Rightarrow> ustr \<Rightarrow> ustr" where
  "log_line ts customer_id action = ts @ [9] @ customer_id @ [9] @ action @ [10]"

definition write_failed :: "ustr \<Rightarrow> pyval" where
  "write_failed e =
     VDict [(lit ''success'', VBool False),
            (lit ''message'', VStr (lit ''Failed to write log: '' @ e @ lit ''. Please contact support.''))]"

definition update_customer_status ::
  "datetime \<Rightarrow> io \<Rightarrow> ustr \<Rightarrow> ustr \<Rightarrow> ustr \<Rightarrow> (error + pyval) \<times> ustr" where
  "update_customer_status now io log customer_id0 action0 =
     (let customer_id = strip customer_id0;
          action = strip action0
      in
      if customer_id = [] \<or> action = [] then
        (Inr (VDict [(lit ''success'', VBool False),
                     (lit ''message'', VStr (lit ''customer_id and action are required.''))]), log)
      else
        let line = log_line (isoformat now) customer_id action in
        (case io of
           OpenFails e \<Rightarrow> (Inr (write_failed e), log)
         | WriteFails e part \<Rightarrow>
             if list_ex surrogate line then (Inl UnicodeEncodeError, log)
             else (Inr (write_failed e), log @ part)
         | Written \<Rightarrow>
             if list_ex surrogate line then (Inl UnicodeEncodeError, log)
             else
               (Inr (VDict [(lit ''success'', VBool True),
                            (lit ''message'', VStr (lit ''Logged '' @ action @ lit '' for '' @ customer_id @ lit ''.''))]),
                log @ line)))"

section \<open>\<open>state.py\<close> and the messages\<close>

text \<open>
  A tool call has a name and a dict of arguments. A message is one of LangChain's four
  kinds; its content is any value (a string or a list of blocks in practice). The graph's
  state holds the messages, the customer profile (\<open>VNone\<close> when absent) and the pending
  route. \<open>_api_time_this_turn\<close> is a float kept for logging only and is left out, as are
  the log calls.
\<close>

record tool_call =
  tc_name :: ustr
  tc_args :: "(ustr \<times> pyval) list"

datatype message =
    HumanMessage pyval
  | AIMessage pyval "tool_call list"
  | SystemMessage pyval
  | ToolMessage ustr pyval

record state =
  messages :: "message list"
  customer_data :: pyval
  next_route :: "ustr option"

section \<open>\<open>graph.py\<close>: the agent step engine\<close>

text \<open>
  What lies outside the repository is a parameter of the engine:
  \<^item> \<open>api_key\<close>: whether \<open>GOOGLE_API_KEY\<close> or \<open>GEMINI_API_KEY\<close> is set (\<open>_get_llm\<close> raises
    \<open>ValueError\<close> otherwise);
  \<^item> \<open>llm k\<close>: the outcome of the \<open>k\<close>-th request this invocation sends to the model, an
    exception or a response with its content and tool calls. Whatever the model makes of
    the prompt and the history it is sent, the run sees one such sequence, so a statement
    for every sequence covers every model;
  \<^item> \<open>tool_node k response\<close>: what \<open>tool_node.invoke\<close> returns in round \<open>k\<close>, the tool
    messages or an exception;
  \<^item> \<open>lookup x\<close>: \<open>get_customer_data.invoke({"email": x})\<close>, the tool of \<open>tools.py\<close> behind
    LangChain's wrapper;
  \<^item> \<open>repr\<close>: Python's text for a value that is not a string;
  \<^item> \<open>alnum\<close>: the alphanumeric code points from 256 on, for the class \<open>\w\<close>.
\<close>

datatype llm_result = Fails | Responds pyval "tool_call list"

record env =
  api_key :: bool
  llm :: "nat \<Rightarrow> llm_result"
  tool_node :: "nat \<Rightarrow> message \<Rightarrow> error + message list"
  lookup :: "ustr \<Rightarrow> error + pyval"
  repr :: "pyval \<Rightarrow> ustr"
  alnum :: "uchar \<Rightarrow> bool"

text \<open>The local variables of \<open>_invoke_agent\<close>; \<open>calls\<close> counts the requests sent so far.\<close>

record locals =
  msgs :: "message list"
  customer_data_out :: pyval
  route :: "ustr option"
  tool_rounds :: nat
  has_status_update :: bool
  calls :: nat

datatype 'a step = Break 'a | Again 'a

definition max_tool_rounds :: nat where
  "max_tool_rounds = 6"

text \<open>\<open>cd and isinstance(cd, dict) and cd.get("found")\<close>.\<close>

definition has_found :: "pyval \<Rightarrow> bool" where
  "has_found cd = (case cd of VDict d \<Rightarrow> truthy (VDict d) \<and> truthy (dict_get d (lit ''found'')) | _ \<Rightarrow> False)"

text \<open>\<open>(next_route or "end").strip().lower()\<close>.\<close>

definition route_hint_of :: "ustr option \<Rightarrow> ustr" where
  "route_hint_of r = lower (strip (or_default r (lit ''end'')))"

text \<open>
  The text the pre-fetch scans in one user message: a list content is joined with spaces,
  each block giving its \<open>text\<close> or its \<open>str\<close>; \<open>join\<close> raises \<open>TypeError\<close> on a
  \<open>text\<close> that is not a string.
\<close>

fun prefetch_parts :: "(pyval \<Rightarrow> ustr) \<Rightarrow> pyval list \<Rightarrow> error + ustr list" where
  "prefetch_parts rp [] = Inr []"
| "prefetch_parts rp (b # bs) =
     (let part = (case b of
                    VDict d \<Rightarrow> (if map_of d (lit ''text'') \<noteq> None then dict_get d (lit ''text'')
                                else VStr (py_str rp b))
                  | _ \<Rightarrow> VStr (py_str rp b))
      in case part of
           VStr s \<Rightarrow> (case prefetch_parts rp bs of Inl e \<Rightarrow> Inl e | Inr ps \<Rightarrow> Inr (s # ps))
         | _ \<Rightarrow> Inl TypeError)"

definition prefetch_text :: "(pyval \<Rightarrow> ustr) \<Rightarrow> pyval \<Rightarrow> error + ustr" where
  "prefetch_text rp content =
     (case content of
        VList bs \<Rightarrow> (case prefetch_parts rp bs of Inl e \<Rightarrow> Inl e | Inr ps \<Rightarrow> Inr (join [32] ps))
      | _ \<Rightarrow> Inr (if truthy content then py_str rp content else []))"

text \<open>
  The pre-fetch loop over the messages: the first user message whose identifier looks up a
  found profile ends it; an exception of the lookup is logged and the scan goes on.
\<close>

fun prefetch :: "env \<Rightarrow> message list \<Rightarrow> error + pyval option" where
  "prefetch ev [] = Inr None"
| "prefetch ev (HumanMessage content # ms) =
     (if truthy content then
        (case prefetch_text (repr ev) content of
           Inl e \<Rightarrow> Inl e
         | Inr text \<Rightarrow>
            (case extract_email_or_cust_id (alnum ev) text of
               None \<Rightarrow> prefetch ev ms
             | Some extracted \<Rightarrow>
                 if extracted = [] then prefetch ev ms
                 else (case lookup ev extracted of
                         Inl e \<Rightarrow> prefetch ev ms
                       | Inr result \<Rightarrow>
                           if has_found result then Inr (Some result) else prefetch ev ms)))
      else prefetch ev ms)"
| "prefetch ev (m # ms) = prefetch ev ms"

definition profile_message :: "(pyval \<Rightarrow> ustr) \<Rightarrow> pyval \<Rightarrow> message" where
  "profile_message rp cd = SystemMessage (VStr (lit ''Customer profile: '' @ py_str rp cd))"

text \<open>
  The profile message is put in front unless the first message is already one;
  \<open>startswith\<close> on a system message whose content is not a string raises.
\<close>

definition inject_profile :: "(pyval \<Rightarrow> ustr) \<Rightarrow> pyval \<Rightarrow> message list \<Rightarrow> error + message list" where
  "inject_profile rp cd ms =
     (if truthy cd \<and> ms \<noteq> [] then
        (case ms of
           SystemMessage (VStr s) # _ \<Rightarrow>
             if startswith s (lit ''Customer profile:'') then Inr ms
             else Inr (profile_message rp cd # ms)
         | SystemMessage _ # _ \<Rightarrow> Inl AttributeError
         | _ \<Rightarrow> Inr (profile_message rp cd # ms))
      else Inr ms)"

text \<open>Everything before the main loop.\<close>

definition prepare :: "env \<Rightarrow> state \<Rightarrow> error + locals" where
  "prepare ev st =
     (if \<not> api_key ev then Inl ValueError
      else
        (case (if \<not> has_found (customer_data st) \<and> messages st \<noteq> []
               then prefetch ev (messages st) else Inr None) of
           Inl e \<Rightarrow> Inl e
         | Inr fetched \<Rightarrow>
             (let cd = (case fetched of None \<Rightarrow> customer_data st | Some result \<Rightarrow> result);
                  ms = (case fetched of None \<Rightarrow> messages st
                        | Some result \<Rightarrow> profile_message (repr ev) result # messages st)
              in (case inject_profile (repr ev) cd ms of
                    Inl e \<Rightarrow> Inl e
                  | Inr ms' \<Rightarrow>
                      Inr \<lparr> msgs = ms', customer_data_out = cd, route = next_route st,
                            tool_rounds = 0, has_status_update = False, calls = 0 \<rparr>))))"

text \<open>A request to the model, sent again once when it fails.\<close>

definition invoke_llm_retry :: "env \<Rightarrow> nat \<Rightarrow> error + (pyval \<times> tool_call list \<times> nat)" where
  "invoke_llm_retry ev k =
     (case llm ev k of
        Responds content tcs \<Rightarrow> Inr (content, tcs, Suc k)
      | Fails \<Rightarrow>
          (case llm ev (Suc k) of
             Responds content tcs \<Rightarrow> Inr (content, tcs, Suc (Suc k))
           | Fails \<Rightarrow> Inl RuntimeError))"

text \<open>
  The loop over the tool calls of a response: \<open>set_route\<close> sets the route to
  \<open>(args.get("route") or "end").strip().lower()\<close>, which raises on a truthy value that is
  not a string; \<open>update_customer_status\<close> sets the flag.
\<close>

fun scan_tool_calls :: "tool_call list \<Rightarrow> ustr option \<Rightarrow> bool \<Rightarrow> error + (ustr option \<times> bool)" where
  "scan_tool_calls [] r h = Inr (r, h)"
| "scan_tool_calls (tc # tcs) r h =
     (let h' = (h \<or> tc_name tc = lit ''update_customer_status'') in
      if tc_name tc = lit ''set_route'' then
        (let v = dict_get (tc_args tc) (lit ''route'') in
         if \<not> truthy v then scan_tool_calls tcs (Some (lit ''end'')) h'
         else case v of
                VStr s \<Rightarrow> scan_tool_calls tcs (Some (lower (strip s))) h'
              | _ \<Rightarrow> Inl AttributeError)
      else scan_tool_calls tcs r h')"

text \<open>The first tool message whose content is a dict with \<open>found is True\<close> replaces the profile.\<close>

definition is_found_result :: "message \<Rightarrow> bool" where
  "is_found_result m =
     (case m of ToolMessage n (VDict d) \<Rightarrow> dict_get d (lit ''found'') = VBool True | _ \<Rightarrow> False)"

definition persist_profile :: "message list \<Rightarrow> pyval \<Rightarrow> pyval" where
  "persist_profile tms cd =
     (case List.find is_found_result tms of
        Some (ToolMessage n content) \<Rightarrow> content
      | _ \<Rightarrow> cd)"

definition only_set_route :: "tool_call list \<Rightarrow> bool" where
  "only_set_route tcs = list_all (\<lambda>tc. lower (strip (tc_name tc)) = lit ''set_route'') tcs"

text \<open>
  The latest user message with a content, as text: a string in lower case; the \<open>str\<close> of
  anything else, in lower case when \<open>lc\<close> is set (the end branch leaves it as it is).
\<close>

definition is_user_text :: "message \<Rightarrow> bool" where
  "is_user_text m = (case m of HumanMessage c \<Rightarrow> truthy c | _ \<Rightarrow> False)"

definition last_user_text :: "(pyval \<Rightarrow> ustr) \<Rightarrow> bool \<Rightarrow> message list \<Rightarrow> ustr" where
  "last_user_text rp lc ms =
     (case List.find is_user_text (rev ms) of
        Some (HumanMessage (VStr s)) \<Rightarrow> lower s
      | Some (HumanMessage c) \<Rightarrow> if lc then lower (py_str rp c) else py_str rp c
      | _ \<Rightarrow> [])"

definition any_in :: "ustr list \<Rightarrow> ustr \<Rightarrow> bool" where
  "any_in ws t = list_ex (\<lambda>w. isin w t) ws"

definition processed_reply :: ustr where
  "processed_reply = lit ''Your request has been processed. Is there anything else I can help with?''"

text \<open>
  A constrained reply inside \<open>try\<close>/\<open>except\<close>: the model's text when it is a string with
  something besides white space, the fallback when it is anything else or the call raises.
\<close>

definition constrained_reply :: "env \<Rightarrow> locals \<Rightarrow> ustr \<Rightarrow> locals" where
  "constrained_reply ev l fallback =
     (case llm ev (calls l) of
        Responds (VStr fc) tcs \<Rightarrow>
          l\<lparr> msgs := msgs l @ [AIMessage (VStr (if strip fc \<noteq> [] then fc else fallback)) []],
             calls := Suc (calls l) \<rparr>
      | _ \<Rightarrow>
          l\<lparr> msgs := msgs l @ [AIMessage (VStr fallback) []], calls := Suc (calls l) \<rparr>)"

text \<open>The test \<open>empty\<close> on the content of the reply after a route.\<close>

definition empty_content :: "pyval \<Rightarrow> bool" where
  "empty_content c =
     (\<not> truthy c \<or>
      (case c of
         VStr s \<Rightarrow> strip s = []
       | VList bs \<Rightarrow>
           \<not> list_ex (\<lambda>b. case b of VDict d \<Rightarrow> truthy (dict_get d (lit ''text'')) | _ \<Rightarrow> truthy b) bs
       | _ \<Rightarrow> False))"

text \<open>
  The reply synthesized when every tool call of the round was \<open>set_route\<close>. The system
  prompts only reach the model, whose answer is \<open>llm\<close>; what the branches differ in here is
  the fallback, the retry and the route.
\<close>

definition synthesize :: "env \<Rightarrow> locals \<Rightarrow> error + locals" where
  "synthesize ev l =
     (let route_hint = route_hint_of (route l) in
      if route_hint = lit ''end'' then
        if has_status_update l then Inr (constrained_reply ev l processed_reply)
        else
          let last_user = last_user_text (repr ev) False (msgs l) in
          if any_in [lit ''payment pause'', lit ''cheaper option'', lit ''cheaper plan'',
                     lit ''basic plan'', lit ''replacement involve'', lit ''upgrade''] last_user
          then Inr (constrained_reply ev l (fallback_reply_for_route (lit ''retention'')))
          else if any_in [lit ''cancel'', lit ''return'', lit ''get rid'', lit ''can't afford'',
                          lit ''cant afford''] last_user
          then Inr (constrained_reply ev l (fallback_reply_for_route (lit ''end'')))
          else Inr (l\<lparr> msgs := msgs l @ [AIMessage (VStr (fallback_reply_for_route (lit ''end''))) []] \<rparr>)
      else
        let last_user = last_user_text (repr ev) True (msgs l);
            l1 = (if route_hint = lit ''billing'' \<and>
                     any_in [lit ''payment pause'', lit ''cheaper option'', lit ''cheaper plan'',
                             lit ''basic plan''] last_user
                  then l\<lparr> route := Some (lit ''end'') \<rparr> else l)
        in case invoke_llm_retry ev (calls l) of
             Inl e \<Rightarrow> Inl e
           | Inr (final_content, tcs, k) \<Rightarrow>
               Inr (l1\<lparr> msgs := msgs l @
                            [AIMessage (if empty_content final_content
                                        then VStr (fallback_reply_for_route route_hint)
                                        else final_content) []],
                         calls := k \<rparr>))"

text \<open>One pass through the body of \<open>while True\<close>.\<close>

definition loop_round :: "env \<Rightarrow> locals \<Rightarrow> error + locals step" where
  "loop_round ev l =
     (case invoke_llm_retry ev (calls l) of
        Inl e \<Rightarrow> Inl e
      | Inr (content, tcs, k) \<Rightarrow>
          if tcs = [] then Inr (Break (l\<lparr> msgs := msgs l @ [AIMessage content []], calls := k \<rparr>))
          else
            (case scan_tool_calls tcs (route l) (has_status_update l) of
               Inl e \<Rightarrow> Inl e
             | Inr (r, h) \<Rightarrow>
                 (case tool_node ev (tool_rounds l) (AIMessage content tcs) of
                    Inl e \<Rightarrow> Inl e
                  | Inr tms \<Rightarrow>
                      (let l' = \<lparr> msgs = msgs l @ [AIMessage content tcs] @ tms,
                                  customer_data_out = persist_profile tms (customer_data_out l),
                                  route = r,
                                  tool_rounds = Suc (tool_rounds l),
                                  has_status_update = h,
                                  calls = k \<rparr>
                       in if only_set_route tcs then
                            (case synthesize ev l' of Inl e \<Rightarrow> Inl e | Inr l'' \<Rightarrow> Inr (Break l''))
                          else if max_tool_rounds \<le> tool_rounds l' then Inr (Break l')
                          else Inr (Again l')))))"

text \<open>
  \<open>while True\<close>: nothing in the form of the loop says that it ends, so not returning is
  the value \<open>None\<close>.
\<close>

partial_function (option) agent_loop :: "env \<Rightarrow> locals \<Rightarrow> (error + locals) option" where
  "agent_loop ev l =
     (case loop_round ev l of
        Inl e \<Rightarrow> Some (Inl e)
      | Inr (Break l') \<Rightarrow> Some (Inr l')
      | Inr (Again l') \<Rightarrow> agent_loop ev l')"

text \<open>
  After the loop: on the route \<open>billing\<close> without a found profile, the latest assistant
  message with a content is rewritten to ask for the email, unless it already does.
\<close>

definition email_suffix :: ustr where
  "email_suffix = lit '' Could you share your email so I can look up your account?''"

definition is_ai_text :: "message \<Rightarrow> bool" where
  "is_ai_text m = (case m of AIMessage c tcs \<Rightarrow> truthy c | _ \<Rightarrow> False)"

definition last_ai :: "message list \<Rightarrow> nat option" where
  "last_ai ms = List.find (\<lambda>i. is_ai_text (ms ! i)) (rev [0..<length ms])"

definition content_of :: "message \<Rightarrow> pyval" where
  "content_of m =
     (case m of HumanMessage c \<Rightarrow> c | AIMessage c tcs \<Rightarrow> c | SystemMessage c \<Rightarrow> c
      | ToolMessage n c \<Rightarrow> c)"

definition billing_repair :: "env \<Rightarrow> locals \<Rightarrow> locals" where
  "billing_repair ev l =
     (if route_hint_of (route l) = lit ''billing'' \<and> \<not> has_found (customer_data_out l) then
        (case last_ai (msgs l) of
           None \<Rightarrow> l
         | Some i \<Rightarrow>
             (let existing = extract_message_text (repr ev) (content_of (msgs l ! i)) in
              if existing \<noteq> [] \<and> \<not> isin (lit ''email'') (lower existing) then
                (case llm ev (calls l) of
                   Responds rc tcs \<Rightarrow>
                     (let rewritten = (if truthy rc then extract_message_text (repr ev) rc else []) in
                      l\<lparr> msgs := (msgs l)[i := AIMessage (VStr
                                    (if rewritten \<noteq> [] \<and> isin (lit ''email'') (lower rewritten)
                                     then rewritten else existing @ email_suffix)) []],
                         calls := Suc (calls l) \<rparr>)
                 | Fails \<Rightarrow>
                     l\<lparr> msgs := (msgs l)[i := AIMessage (VStr (existing @ email_suffix)) []],
                        calls := Suc (calls l) \<rparr>)
              else l))
      else l)"

text \<open>
  \<open>_invoke_agent\<close>: an error, the returned state, or \<open>None\<close> if the loop did not end.
  The returned route is \<open>next_route or state.get("next_route")\<close>.
\<close>

definition invoke_agent :: "env \<Rightarrow> state \<Rightarrow> (error + state) option" where
  "invoke_agent ev st =
     (case prepare ev st of
        Inl e \<Rightarrow> Some (Inl e)
      | Inr l0 \<Rightarrow>
          (case agent_loop ev l0 of
             None \<Rightarrow> None
           | Some (Inl e) \<Rightarrow> Some (Inl e)
           | Some (Inr l1) \<Rightarrow>
               (let l = billing_repair ev l1 in
                Some (Inr \<lparr> messages = msgs l,
                            customer_data = customer_data_out l,
                            next_route = (if or_default (route l) [] \<noteq> [] then route l
                                          else next_route st) \<rparr>))))"

declare agent_loop.simps [code]

section \<open>\<open>graph.py\<close>: the edges of the stage graph\<close>

definition device_words :: "ustr list" where
  "device_words =
     [lit ''overheat'', lit ''broken'', lit ''crack'', lit ''won't charge'', lit ''not charging'',
      lit ''screen flicker'', lit ''battery drain'']"

definition cancel_words :: "ustr list" where
  "cancel_words = [lit ''cancel'', lit ''return'', lit ''get rid'']"

definition route_after_greeter :: "(pyval \<Rightarrow> ustr) \<Rightarrow> state \<Rightarrow> ustr" where
  "route_after_greeter rp st =
     (let r0 = route_hint_of (next_route st);
          last_user = last_user_text rp True (messages st);
          r = (if any_in device_words last_user \<and> any_in cancel_words last_user \<and>
                  r0 \<noteq> lit ''retention''
               then lit ''retention'' else r0)
      in if r = lit ''retention'' then lit ''problem_solver''
         else if r = lit ''cancel'' then lit ''processor''
         else lit ''end'')"

definition route_after_problem_solver :: "state \<Rightarrow> ustr" where
  "route_after_problem_solver st =
     (if route_hint_of (next_route st) = lit ''cancel'' then lit ''processor'' else lit ''end'')"

section \<open>Notions of the specification used in the statements\<close>

text \<open>
  \<open>field v k\<close> reads a key of a returned record. A tier is valid when it normalises (trim,
  lower case) to one of the three tiers. \<open>table_entries\<close> is the specification's reading of
  the rule table at a category and a tier-or-sub-category key, with the empty list where the
  table has no entry (\<open>configured\<close> says whether it has one); \<open>resolved_key\<close> is the pair
  the reason and the tier resolve to.
\<close>

definition field :: "pyval \<Rightarrow> ustr \<Rightarrow> pyval option" where
  "field v k = (case v of VDict d \<Rightarrow> map_of d k | _ \<Rightarrow> None)"

definition valid_tier :: "ustr \<Rightarrow> bool" where
  "valid_tier t \<longleftrightarrow> lower (strip t) = lit ''premium'' \<or> lower (strip t) = lit ''regular'' \<or> lower (strip t) = lit ''new''"

definition table_entries :: "rules \<Rightarrow> ustr \<Rightarrow> ustr \<Rightarrow> pyval list" where
  "table_entries rs category key =
     (case map_of rs category of
        None \<Rightarrow> []
      | Some cat \<Rightarrow> (case map_of cat key of None \<Rightarrow> [] | Some os \<Rightarrow> os))"

definition resolved_key :: "ustr \<Rightarrow> ustr \<Rightarrow> ustr \<times> ustr" where
  "resolved_key customer_tier reason =
     (let (top_key, sub_key) = resolve_reason (normalize_reason reason) in
      if top_key = lit ''financial_hardship''
      then (top_key, case map_of TIER_KEY (lower (strip customer_tier)) of None \<Rightarrow> [] | Some k \<Rightarrow> k)
      else if top_key = lit ''product_issues'' then (top_key, or_default sub_key (lit ''overheating''))
      else (top_key, or_default sub_key (lit ''care_plus_premium'')))"

definition configured :: "rules \<Rightarrow> ustr \<Rightarrow> ustr \<Rightarrow> bool" where
  "configured rs category key =
     (case map_of rs category of None \<Rightarrow> False | Some cat \<Rightarrow> map_of cat key \<noteq> None)"

text \<open>
  Reading the status log back: \<open>split_on c\<close> is \<open>str.split(c)\<close>; \<open>parse_log\<close> splits the
  text into its lines (each ended by a line feed) and every line into its tab-separated
  fields. An argument is \<open>loggable\<close> when it is not empty after trimming and then holds no
  tab, no line feed and no lone surrogate. \<open>record_all\<close> makes one call after the other,
  each written by the system;
  \<open>line_of\<close> and \<open>entry_of\<close> are the line and the three fields a call stands for.
\<close>

fun split_on :: "uchar \<Rightarrow> ustr \<Rightarrow> ustr list" where
  "split_on c [] = [[]]"
| "split_on c (x # xs) =
     (if x = c then [] # split_on c xs
      else (case split_on c xs of [] \<Rightarrow> [[x]] | r # rs \<Rightarrow> (x # r) # rs))"

definition parse_log :: "ustr \<Rightarrow> ustr list list" where
  "parse_log text = map (split_on 9) (butlast (split_on 10 text))"

definition loggable :: "ustr \<Rightarrow> bool" where
  "loggable s \<longleftrightarrow>
     strip s \<noteq> [] \<and> 9 \<notin> set (strip s) \<and> 10 \<notin> set (strip s) \<and> \<not> list_ex surrogate (strip s)"

fun record_all :: "(datetime \<times> ustr \<times> ustr) list \<Rightarrow> ustr \<Rightarrow> ustr" where
  "record_all [] log = log"
| "record_all ((now, customer_id, action) # cs) log =
     record_all cs (snd (update_customer_status now Written log customer_id action))"

definition entry_of :: "datetime \<times> ustr \<times> ustr \<Rightarrow> ustr list" where
  "entry_of call = (case call of (now, customer_id, action) \<Rightarrow> [isoformat now, strip customer_id, strip action])"

definition line_of :: "datetime \<times> ustr \<times> ustr \<Rightarrow> ustr" where
  "line_of call = (case call of (now, customer_id, action) \<Rightarrow> log_line (isoformat now) (strip customer_id) (strip action))"





text \<open>
  The triggers of the sanitizer: \<open>has_jargon\<close> is the test for a leaked routing phrase,
  \<open>looks_chopped\<close> the test for a long text without a sentence end.
\<close>

definition has_jargon :: "ustr \<Rightarrow> bool" where
  "has_jargon text \<longleftrightarrow>
     (let t = lower (strip text) in
      (isin (lit ''route'') t \<and> (isin (lit ''has been set'') t \<or> isin (lit ''set to '') t)) \<or>
      isin (lit ''set to end'') t \<or> isin (lit ''set to retention'') t \<or>
      isin (lit ''set to cancel'') t \<or> isin (lit ''set to billing'') t \<or>
      isin (lit ''set to tech'') t)"

definition looks_chopped :: "ustr \<Rightarrow> bool" where
  "looks_chopped text \<longleftrightarrow>
     200 \<le> length text \<and> rstrip text \<noteq> [] \<and> last (rstrip text) \<notin> set sentence_end"

text \<open>The device-fault keywords as the specification lists them.\<close>

definition spec_device_words :: "ustr list" where
  "spec_device_words =
     [lit ''overheat'', lit ''broken'', lit ''crack'', lit ''won't charge'', lit ''screen flicker'',
      lit ''battery drain'']"

text \<open>
  \<open>found_or_kept old new\<close>: the profile \<open>new\<close> is \<open>old\<close> or a dict whose \<open>found\<close> is \<open>True\<close>.
\<close>

definition found_or_kept :: "pyval \<Rightarrow> pyval \<Rightarrow> bool" where
  "found_or_kept old new \<longleftrightarrow>
     new = old \<or> (\<exists>d. new = VDict d \<and> dict_get d (lit ''found'') = VBool True)"





text \<open>A small directory and rule table, and the state before anything is loaded.\<close>

definition example_files :: files where
  "example_files =
     \<lparr> customers_file = Some [[(lit ''customer_id'', lit ''CUST_001''), (lit ''email'', lit ''sarah.chen@email.com''), (lit ''tier'', lit ''premium'')]],
       rules_file = Some [(lit ''financial_hardship'', [(lit ''premium_customers'', [VStr (lit ''pause''), VStr (lit ''discount'')])]),
                          (lit ''product_issues'', [(lit ''overheating'', [VStr (lit ''replacement'')])])] \<rparr>"

definition empty_cache :: cache where
  "empty_cache = \<lparr> customers_c = None, rules_c = None \<rparr>"

text \<open>
  The code points from 256 on that the examples need from the table of alphanumeric
  characters: U+017F (long s) and the Cyrillic letters U+0410 to U+044F.
\<close>

definition example_alnum :: "uchar \<Rightarrow> bool" where
  "example_alnum c \<longleftrightarrow> c = 383 \<or> (1040 \<le> c \<and> c \<le> 1103)"


definition example_time :: datetime where
  "example_time = \<lparr> year = 2026, month = 11, day = 3, hour = 9, minute = 5, second = 0, microsecond = 120 \<rparr>"

definition example_calls :: "(datetime \<times> ustr \<times> ustr) list" where
  "example_calls =
     [(example_time, lit '' CUST_001 '', lit ''cancellation''),
      (example_time\<lparr> second := 7, microsecond := 0 \<rparr>, lit ''CUST_002'', lit ''payment pause'')]"

definition intranet_files :: files where
  "intranet_files =
     \<lparr> customers_file = Some [[(lit ''customer_id'', lit ''CUST_042''), (lit ''email'', lit ''ops@intranet''),
                               (lit ''tier'', lit ''regular'')]],
       rules_file = None \<rparr>"

definition scenario_b :: state where
  "scenario_b =
     \<lparr> messages = [HumanMessage (VStr (lit ''This phone keeps OVERHEATING, want to return it and cancel everything'')),
                   AIMessage (VStr []) [\<lparr> tc_name = lit ''set_route'', tc_args = [(lit ''route'', VStr (lit ''cancel''))] \<rparr>],
                   ToolMessage (lit ''set_route'') (VStr (lit ''Route set to: cancel'')),
                   AIMessage (VStr (lit ''One moment.'')) []],
       customer_data = VNone,
       next_route = Some (lit ''cancel'') \<rparr>"

text \<open>
  Environments and states for the engine: a model that asks for a search in every round,
  one that looks up an unknown email and then answers, one that routes to \<open>tech\<close> and then
  fails, and one that answers with white space.
\<close>

definition search_tool_call :: tool_call where
  "search_tool_call = \<lparr> tc_name = lit ''policy_search'', tc_args = [(lit ''query'', VStr (lit ''refund''))] \<rparr>"

definition runaway_env :: env where
  "runaway_env =
     \<lparr> api_key = True,
       llm = (\<lambda>k. Responds (VStr []) [search_tool_call]),
       tool_node = (\<lambda>k m. Inr [ToolMessage (lit ''policy_search'') (VStr (lit ''No query or retriever available.''))]),
       lookup = (\<lambda>x. Inr (fst (get_customer_data example_alnum example_files empty_cache x))),
       repr = (\<lambda>v. []),
       alnum = example_alnum \<rparr>"

definition hello_state :: state where
  "hello_state = \<lparr> messages = [HumanMessage (VStr (lit ''what is the refund policy?''))],
                    customer_data = VNone, next_route = None \<rparr>"

definition sarah_profile :: pyval where
  "sarah_profile = VDict [(lit ''found'', VBool True), (lit ''customer_id'', VStr (lit ''CUST_001'')),
                          (lit ''tier'', VStr (lit ''premium''))]"

definition found_state :: state where
  "found_state = \<lparr> messages = [HumanMessage (VStr (lit ''also check nobody@example.com please''))],
                    customer_data = sarah_profile, next_route = None \<rparr>"

definition lookup_env :: env where
  "lookup_env =
     \<lparr> api_key = True,
       llm = (\<lambda>k. if k = 0
                  then Responds (VStr []) [\<lparr> tc_name = lit ''get_customer_data'',
                                             tc_args = [(lit ''email'', VStr (lit ''nobody@example.com''))] \<rparr>]
                  else Responds (VStr (lit ''I could not find that account.'')) []),
       tool_node = (\<lambda>k m. Inr [ToolMessage (lit ''get_customer_data'')
                                  (fst (get_customer_data example_alnum example_files empty_cache (lit ''nobody@example.com'')))]),
       lookup = (\<lambda>x. Inr (fst (get_customer_data example_alnum example_files empty_cache x))),
       repr = (\<lambda>v. []),
       alnum = example_alnum \<rparr>"

definition before_sixth_round :: locals where
  "before_sixth_round =
     \<lparr> msgs = messages hello_state, customer_data_out = VNone, route = None,
       tool_rounds = 5, has_status_update = False, calls = 5 \<rparr>"









section \<open>Shared lemmas\<close>

lemma lit_eq_simps: "lit ''premium'' \<noteq> lit ''regular''" "lit ''premium'' \<noteq> lit ''new''" "lit ''regular'' \<noteq> lit ''new''"
  by (simp_all add: lit_def)

lemma tier_key_valid: "map_of TIER_KEY (lower (strip t)) \<noteq> None \<longleftrightarrow> valid_tier t"
  by (auto simp: TIER_KEY_def valid_tier_def lit_eq_simps split: if_splits)

lemma find_mem: "List.find P xs = Some x \<Longrightarrow> x \<in> set xs"
  by (induction xs) (auto split: if_splits)

lemma resolve_reason_cases:
  "resolve_reason r = (lit ''financial_hardship'', None) \<or>
   resolve_reason r = (lit ''product_issues'', Some (lit ''overheating'')) \<or>
   resolve_reason r = (lit ''product_issues'', Some (lit ''battery_issues'')) \<or>
   resolve_reason r = (lit ''service_value'', Some (lit ''care_plus_premium''))"
proof (cases "List.find (\<lambda>(k, tk, sk). isin k r \<or> isin k (filter (\<lambda>c. c \<noteq> 95) r)) REASON_MAP")
  case None
  then show ?thesis by (simp add: resolve_reason_def)
next
  case (Some x)
  then have "x \<in> set REASON_MAP" by (rule find_mem)
  with Some show ?thesis
    by (auto simp: resolve_reason_def REASON_MAP_def)
qed

lemma category_distinct:
  "lit ''financial_hardship'' \<noteq> lit ''product_issues''"
  "lit ''financial_hardship'' \<noteq> lit ''service_value''"
  "lit ''product_issues'' \<noteq> lit ''service_value''"
  "lit ''product_issues'' \<noteq> lit ''financial_hardship''"
  "lit ''service_value'' \<noteq> lit ''financial_hardship''"
  "lit ''service_value'' \<noteq> lit ''product_issues''"
  by (simp_all add: lit_def)

lemma field_key_distinct:
  "lit ''offers'' \<noteq> lit ''customer_tier''" "lit ''offers'' \<noteq> lit ''reason''"
  "lit ''offers'' \<noteq> lit ''message''" "lit ''customer_tier'' \<noteq> lit ''reason''"
  "lit ''customer_tier'' \<noteq> lit ''message''" "lit ''reason'' \<noteq> lit ''message''"
  "lit ''customer_tier'' \<noteq> lit ''offers''" "lit ''reason'' \<noteq> lit ''offers''"
  "lit ''message'' \<noteq> lit ''offers''" "lit ''reason'' \<noteq> lit ''customer_tier''"
  "lit ''message'' \<noteq> lit ''customer_tier''" "lit ''message'' \<noteq> lit ''reason''"
  by (simp_all add: lit_def)

lemma offers_valid_tier:
  assumes "valid_tier customer_tier" and "fst (get_rules fs c) \<noteq> []"
  shows "fst (calculate_retention_offer fs c customer_tier reason) =
           VDict [(lit ''offers'', VList (table_entries (fst (get_rules fs c))
                      (fst (resolved_key customer_tier reason)) (snd (resolved_key customer_tier reason)))),
                  (lit ''customer_tier'', VStr (lower (strip customer_tier))),
                  (lit ''reason'', VStr (normalize_reason reason))]"
proof -
  from assms(1) obtain tk where tk: "map_of TIER_KEY (lower (strip customer_tier)) = Some tk"
    using tier_key_valid [of customer_tier] by auto
  obtain rs c' where g: "get_rules fs c = (rs, c')" by (cases "get_rules fs c")
  with assms(2) have ne: "rs \<noteq> []" by simp
  from resolve_reason_cases [of "normalize_reason reason"] show ?thesis
    by (elim disjE)
       (auto simp: calculate_retention_offer_def tk g ne resolved_key_def table_entries_def
          category_get_def or_default_def category_distinct lit_def split: option.splits)
qed

lemma offers_invalid_tier:
  assumes "\<not> valid_tier customer_tier"
  shows "calculate_retention_offer fs c customer_tier reason =
           (VDict [(lit ''offers'', VList []),
                   (lit ''message'', VStr (lit ''Invalid customer_tier: '' @ customer_tier @
                      lit ''. Use premium, regular, or new.''))], c)"
proof -
  from assms have "map_of TIER_KEY (lower (strip customer_tier)) = None"
    using tier_key_valid [of customer_tier] by auto
  then show ?thesis by (simp add: calculate_retention_offer_def)
qed

lemma offers_no_rules:
  assumes "valid_tier customer_tier" and "fst (get_rules fs c) = []"
  shows "fst (calculate_retention_offer fs c customer_tier reason) =
           VDict [(lit ''offers'', VList []),
                  (lit ''message'', VStr (lit ''Retention rules not available.''))]"
proof -
  from assms(1) obtain tk where tk: "map_of TIER_KEY (lower (strip customer_tier)) = Some tk"
    using tier_key_valid [of customer_tier] by auto
  obtain rs c' where g: "get_rules fs c = (rs, c')" by (cases "get_rules fs c")
  with assms(2) have "rs = []" by simp
  then show ?thesis by (simp add: calculate_retention_offer_def tk g)
qed

lemma not_configured: "\<not> configured rs category key \<Longrightarrow> table_entries rs category key = []"
  by (simp add: configured_def table_entries_def split: option.splits)

section \<open>Offer calculation\<close>

text \<open>
  Claim C7. For every tier that normalises to premium, regular or new, and every reason, the
  offer calculation returns a record whose \<open>offers\<close> are the rule table's entries at the key
  the reason and tier resolve to: a subset of them, and the empty list when the table has no
  entry there. The function is total: no input makes it raise. (With an empty rule table
  the record also carries the message that the rules are not available.)
\<close>

theorem offers_subset_of_rule_table:
  assumes "valid_tier customer_tier"
  shows "\<exists>offers.
           field (fst (calculate_retention_offer fs c customer_tier reason)) (lit ''offers'') = Some (VList offers) \<and>
           offers = table_entries (fst (get_rules fs c))
                      (fst (resolved_key customer_tier reason)) (snd (resolved_key customer_tier reason)) \<and>
           set offers \<subseteq> set (table_entries (fst (get_rules fs c))
                      (fst (resolved_key customer_tier reason)) (snd (resolved_key customer_tier reason))) \<and>
           (\<not> configured (fst (get_rules fs c))
                 (fst (resolved_key customer_tier reason)) (snd (resolved_key customer_tier reason))
              \<longrightarrow> offers = [])"
proof (cases "fst (get_rules fs c) = []")
  case True
  then have "table_entries (fst (get_rules fs c))
               (fst (resolved_key customer_tier reason)) (snd (resolved_key customer_tier reason)) = []"
    by (simp add: table_entries_def)
  with offers_no_rules [OF assms True, of reason] show ?thesis
    by (simp add: field_def)
next
  case False
  from offers_valid_tier [OF assms False, of reason] show ?thesis
    by (simp add: field_def not_configured)
qed

theorem offers_subset_of_rule_table_witness:
  "valid_tier (lit '' Premium '') \<and>
   field (fst (calculate_retention_offer example_files empty_cache (lit '' Premium '') (lit ''cant afford'')))
     (lit ''offers'') = Some (VList [VStr (lit ''pause''), VStr (lit ''discount'')]) \<and>
   field (fst (calculate_retention_offer example_files empty_cache (lit '' Premium '') (lit ''service value'')))
     (lit ''offers'') = Some (VList [])"
proof -
  have h: "valid_tier (lit '' Premium '')"
    by code_simp
  have e1: "table_entries (fst (get_rules example_files empty_cache))
              (fst (resolved_key (lit '' Premium '') (lit ''cant afford'')))
              (snd (resolved_key (lit '' Premium '') (lit ''cant afford''))) =
            [VStr (lit ''pause''), VStr (lit ''discount'')]"
    by code_simp
  have e2: "\<not> configured (fst (get_rules example_files empty_cache))
              (fst (resolved_key (lit '' Premium '') (lit ''service value'')))
              (snd (resolved_key (lit '' Premium '') (lit ''service value'')))"
    by code_simp
  from offers_subset_of_rule_table [OF h, of example_files empty_cache "lit ''cant afford''"] e1
  have "field (fst (calculate_retention_offer example_files empty_cache (lit '' Premium '') (lit ''cant afford'')))
     (lit ''offers'') = Some (VList [VStr (lit ''pause''), VStr (lit ''discount'')])"
    by auto
  moreover
  from offers_subset_of_rule_table [OF h, of example_files empty_cache "lit ''service value''"] e2
  have "field (fst (calculate_retention_offer example_files empty_cache (lit '' Premium '') (lit ''service value'')))
     (lit ''offers'') = Some (VList [])"
    by auto
  ultimately show ?thesis using h by simp
qed

text \<open>
  Claim C8, as amended. When the tier is valid and the rule table is not empty, the returned
  record holds the normalised tier under \<open>customer_tier\<close> and the normalised reason under
  \<open>reason\<close>. When the tier is not valid, or the rule table is empty, the record holds
  empty \<open>offers\<close> and a \<open>message\<close>, and neither \<open>customer_tier\<close> nor \<open>reason\<close>.
\<close>

theorem offer_result_tier_and_reason:
  "(valid_tier customer_tier \<and> fst (get_rules fs c) \<noteq> [] \<longrightarrow>
      field (fst (calculate_retention_offer fs c customer_tier reason)) (lit ''customer_tier'') =
        Some (VStr (lower (strip customer_tier))) \<and>
      field (fst (calculate_retention_offer fs c customer_tier reason)) (lit ''reason'') =
        Some (VStr (normalize_reason reason))) \<and>
   (\<not> valid_tier customer_tier \<or> fst (get_rules fs c) = [] \<longrightarrow>
      field (fst (calculate_retention_offer fs c customer_tier reason)) (lit ''offers'') = Some (VList []) \<and>
      (\<exists>m. field (fst (calculate_retention_offer fs c customer_tier reason)) (lit ''message'') = Some (VStr m)) \<and>
      field (fst (calculate_retention_offer fs c customer_tier reason)) (lit ''customer_tier'') = None \<and>
      field (fst (calculate_retention_offer fs c customer_tier reason)) (lit ''reason'') = None)"
proof -
  let ?res = "fst (calculate_retention_offer fs c customer_tier reason)"
  have p1: "field ?res (lit ''customer_tier'') = Some (VStr (lower (strip customer_tier))) \<and>
            field ?res (lit ''reason'') = Some (VStr (normalize_reason reason))"
    if "valid_tier customer_tier" and "fst (get_rules fs c) \<noteq> []"
    using offers_valid_tier [OF that, of reason] by (simp add: field_def field_key_distinct)
  have p2: "field ?res (lit ''offers'') = Some (VList []) \<and>
            (\<exists>m. field ?res (lit ''message'') = Some (VStr m)) \<and>
            field ?res (lit ''customer_tier'') = None \<and> field ?res (lit ''reason'') = None"
    if "\<not> valid_tier customer_tier"
    using offers_invalid_tier [OF that, of fs c reason] by (simp add: field_def field_key_distinct)
  have p3: "field ?res (lit ''offers'') = Some (VList []) \<and>
            (\<exists>m. field ?res (lit ''message'') = Some (VStr m)) \<and>
            field ?res (lit ''customer_tier'') = None \<and> field ?res (lit ''reason'') = None"
    if "valid_tier customer_tier" and "fst (get_rules fs c) = []"
    using offers_no_rules [OF that, of reason] by (simp add: field_def field_key_distinct)
  from p1 p2 p3 show ?thesis by blast
qed

theorem offer_result_tier_and_reason_witness:
  "field (fst (calculate_retention_offer example_files empty_cache (lit '' Premium '') (lit ''Cant Afford'')))
     (lit ''customer_tier'') = Some (VStr (lit ''premium'')) \<and>
   field (fst (calculate_retention_offer example_files empty_cache (lit '' Premium '') (lit ''Cant Afford'')))
     (lit ''reason'') = Some (VStr (lit ''cant_afford'')) \<and>
   field (fst (calculate_retention_offer example_files empty_cache (lit ''gold'') (lit ''financial'')))
     (lit ''offers'') = Some (VList []) \<and>
   field (fst (calculate_retention_offer example_files empty_cache (lit ''gold'') (lit ''financial'')))
     (lit ''reason'') = None"
proof -
  have h1: "valid_tier (lit '' Premium '') \<and> fst (get_rules example_files empty_cache) \<noteq> []"
    by code_simp
  have h2: "\<not> valid_tier (lit ''gold'') \<or> fst (get_rules example_files empty_cache) = []"
    by code_simp
  have n1: "lower (strip (lit '' Premium '')) = lit ''premium''"
    by code_simp
  have n2: "normalize_reason (lit ''Cant Afford'') = lit ''cant_afford''"
    by code_simp
  from offer_result_tier_and_reason [of "lit '' Premium ''" example_files empty_cache "lit ''Cant Afford''"] h1
  have "field (fst (calculate_retention_offer example_files empty_cache (lit '' Premium '') (lit ''Cant Afford'')))
     (lit ''customer_tier'') = Some (VStr (lower (strip (lit '' Premium '')))) \<and>
   field (fst (calculate_retention_offer example_files empty_cache (lit '' Premium '') (lit ''Cant Afford'')))
     (lit ''reason'') = Some (VStr (normalize_reason (lit ''Cant Afford'')))"
    by blast
  moreover
  from offer_result_tier_and_reason [of "lit ''gold''" example_files empty_cache "lit ''financial''"] h2
  have "field (fst (calculate_retention_offer example_files empty_cache (lit ''gold'') (lit ''financial'')))
     (lit ''offers'') = Some (VList []) \<and>
   field (fst (calculate_retention_offer example_files empty_cache (lit ''gold'') (lit ''financial'')))
     (lit ''reason'') = None"
    by blast
  ultimately show ?thesis by (simp only: n1 n2) 
qed

text \<open>
  The claim as first stated, that the record always holds the tier and the reason, fails
  for the tier \<open>gold\<close>: there the record has no \<open>customer_tier\<close>.
\<close>

theorem offer_result_tier_counterexample:
  "field (fst (calculate_retention_offer example_files empty_cache (lit ''gold'') (lit ''financial'')))
     (lit ''customer_tier'') = None"
  by code_simp

section \<open>Recording a status change\<close>

lemma split_on_notin: "c \<notin> set a \<Longrightarrow> split_on c a = [a]"
  by (induction a) auto

lemma split_on_append: "c \<notin> set a \<Longrightarrow> split_on c (a @ c # b) = a # split_on c b"
  by (induction a) auto

lemma decimal_digits: "set (decimal n) \<subseteq> {48..57}"
proof (induction n rule: decimal.induct)
  case (1 n)
  show ?case
  proof (cases "n < 10")
    case True
    then show ?thesis by (subst decimal.simps) auto
  next
    case False
    have "n mod 10 < 10" by simp
    then have "48 + n mod 10 \<in> {48..57}" by auto
    with 1 False show ?thesis by (subst decimal.simps) auto
  qed
qed

lemma zero_padded_digits: "set (zero_padded w n) \<subseteq> {48..57}"
  using decimal_digits [of n] by (auto simp: zero_padded_def)

lemma isoformat_chars: "9 \<notin> set (isoformat d) \<and> 10 \<notin> set (isoformat d)"
proof -
  have "set (isoformat d) \<subseteq> {43..84}"
    using zero_padded_digits [of 4 "year d"] zero_padded_digits [of 2 "month d"]
      zero_padded_digits [of 2 "day d"] zero_padded_digits [of 2 "hour d"]
      zero_padded_digits [of 2 "minute d"] zero_padded_digits [of 2 "second d"]
      zero_padded_digits [of 6 "microsecond d"]
    by (auto simp: isoformat_def lit_def)
  then show ?thesis by auto
qed

lemma log_line_parse:
  assumes "9 \<notin> set ts" "10 \<notin> set ts" "9 \<notin> set a" "10 \<notin> set a" "9 \<notin> set b" "10 \<notin> set b"
  shows "split_on 10 (log_line ts a b @ rest) = (ts @ [9] @ a @ [9] @ b) # split_on 10 rest"
    and "split_on 9 (ts @ [9] @ a @ [9] @ b) = [ts, a, b]"
proof -
  have "10 \<notin> set (ts @ [9] @ a @ [9] @ b)" using assms by auto
  from split_on_append [OF this, of rest]
  show "split_on 10 (log_line ts a b @ rest) = (ts @ [9] @ a @ [9] @ b) # split_on 10 rest"
    by (simp add: log_line_def)
  show "split_on 9 (ts @ [9] @ a @ [9] @ b) = [ts, a, b]"
    using split_on_append [OF assms(1), of "a @ [9] @ b"] split_on_append [OF assms(3), of b]
      split_on_notin [OF assms(5)] by simp
qed

lemma isoformat_encodable: "\<not> list_ex surrogate (isoformat d)"
proof -
  have "set (isoformat d) \<subseteq> {43..84}"
    using zero_padded_digits [of 4 "year d"] zero_padded_digits [of 2 "month d"]
      zero_padded_digits [of 2 "day d"] zero_padded_digits [of 2 "hour d"]
      zero_padded_digits [of 2 "minute d"] zero_padded_digits [of 2 "second d"]
      zero_padded_digits [of 6 "microsecond d"]
    by (auto simp: isoformat_def lit_def)
  then show ?thesis by (auto simp: list_ex_iff surrogate_def)
qed

lemma line_encodable:
  "list_ex surrogate (log_line (isoformat d) a b) \<longleftrightarrow> list_ex surrogate a \<or> list_ex surrogate b"
  using isoformat_encodable [of d] by (auto simp: log_line_def list_ex_iff surrogate_def)

lemma update_ok:
  assumes "strip customer_id \<noteq> []" "strip action \<noteq> []"
    and "\<not> list_ex surrogate (strip customer_id)" "\<not> list_ex surrogate (strip action)"
  shows "update_customer_status now Written log customer_id action =
           (Inr (VDict [(lit ''success'', VBool True),
                   (lit ''message'', VStr (lit ''Logged '' @ strip action @ lit '' for '' @ strip customer_id @ lit ''.''))]),
            log @ log_line (isoformat now) (strip customer_id) (strip action))"
  using assms by (simp add: update_customer_status_def Let_def line_encodable)

lemma update_invalid:
  assumes "strip customer_id = [] \<or> strip action = []"
  shows "update_customer_status now io log customer_id action =
           (Inr (VDict [(lit ''success'', VBool False),
                   (lit ''message'', VStr (lit ''customer_id and action are required.''))]), log)"
  using assms by (auto simp: update_customer_status_def Let_def)

lemma update_open_fails:
  assumes "strip customer_id \<noteq> []" "strip action \<noteq> []"
  shows "update_customer_status now (OpenFails e) log customer_id action = (Inr (write_failed e), log)"
  using assms by (simp add: update_customer_status_def Let_def)

lemma update_write_fails:
  assumes "strip customer_id \<noteq> []" "strip action \<noteq> []"
    and "\<not> list_ex surrogate (strip customer_id)" "\<not> list_ex surrogate (strip action)"
  shows "update_customer_status now (WriteFails e part) log customer_id action =
           (Inr (write_failed e), log @ part)"
  using assms by (simp add: update_customer_status_def Let_def line_encodable)

lemma update_unencodable:
  assumes "strip customer_id \<noteq> []" "strip action \<noteq> []"
    and "list_ex surrogate (strip customer_id) \<or> list_ex surrogate (strip action)"
    and "\<forall>e. io \<noteq> OpenFails e"
  shows "update_customer_status now io log customer_id action = (Inl UnicodeEncodeError, log)"
  using assms by (cases io) (simp_all add: update_customer_status_def Let_def line_encodable)

lemma record_all_appends:
  assumes "list_all (\<lambda>(now, customer_id, action). loggable customer_id \<and> loggable action) cs"
  shows "record_all cs log = log @ concat (map line_of cs)"
  using assms
proof (induction cs arbitrary: log)
  case Nil
  then show ?case by simp
next
  case (Cons call cs)
  obtain now customer_id action where c: "call = (now, customer_id, action)" by (cases call)
  with Cons.prems have "strip customer_id \<noteq> []" "strip action \<noteq> []"
    "\<not> list_ex surrogate (strip customer_id)" "\<not> list_ex surrogate (strip action)"
    by (auto simp: loggable_def)
  from update_ok [OF this] Cons show ?case by (simp add: c line_of_def)
qed

lemma parse_log_lines:
  assumes "list_all (\<lambda>(now, customer_id, action). loggable customer_id \<and> loggable action) cs"
  shows "parse_log (concat (map line_of cs)) = map entry_of cs"
  using assms
proof (induction cs)
  case Nil
  then show ?case by (simp add: parse_log_def)
next
  case (Cons call cs)
  obtain now customer_id action where c: "call = (now, customer_id, action)" by (cases call)
  with Cons.prems have l: "9 \<notin> set (strip customer_id)" "10 \<notin> set (strip customer_id)"
    "9 \<notin> set (strip action)" "10 \<notin> set (strip action)" by (auto simp: loggable_def)
  have i: "9 \<notin> set (isoformat now)" "10 \<notin> set (isoformat now)" using isoformat_chars by auto
  have ne: "split_on 10 t \<noteq> []" for t by (cases t) (auto split: list.splits)
  from log_line_parse [OF i l] Cons show ?case
    by (simp add: c line_of_def entry_of_def parse_log_def ne)
qed

text \<open>
  Claim C9, as amended. For customer id and action that are not empty after trimming and
  then hold no tab, no line feed and no lone surrogate, a call whose write succeeds appends
  exactly the line \<open>timestamp TAB id TAB action LF\<close> to the log and returns
  \<open>success = True\<close>, and the line reads back as one line of exactly these three fields. A
  call that cannot create the directory or open the file returns \<open>success = False\<close> with
  the text of the error and leaves the log as it was; a call whose write fails once the file
  is open returns \<open>success = False\<close> too, and the log keeps whatever had been written.
  \<open>N\<close> calls that are written append \<open>N\<close> lines, which read back as the \<open>N\<close> entries in
  order. When either argument is empty after trimming, the call returns \<open>success = False\<close>
  with the validation message and the log is unchanged. When both are non-empty and one
  holds a lone surrogate, a call that opens the file raises \<open>UnicodeEncodeError\<close> and
  appends nothing.
\<close>

theorem status_log_round_trip:
  "(loggable customer_id \<and> loggable action \<longrightarrow>
      update_customer_status now Written log customer_id action =
        (Inr (VDict [(lit ''success'', VBool True),
                     (lit ''message'', VStr (lit ''Logged '' @ strip action @ lit '' for '' @ strip customer_id @ lit ''.''))]),
         log @ log_line (isoformat now) (strip customer_id) (strip action)) \<and>
      parse_log (log_line (isoformat now) (strip customer_id) (strip action)) =
        [[isoformat now, strip customer_id, strip action]] \<and>
      (\<forall>e part. update_customer_status now (WriteFails e part) log customer_id action =
         (Inr (VDict [(lit ''success'', VBool False),
                      (lit ''message'', VStr (lit ''Failed to write log: '' @ e @ lit ''. Please contact support.''))]),
          log @ part))) \<and>
   (strip customer_id \<noteq> [] \<and> strip action \<noteq> [] \<longrightarrow>
      (\<forall>e. update_customer_status now (OpenFails e) log customer_id action =
         (Inr (VDict [(lit ''success'', VBool False),
                      (lit ''message'', VStr (lit ''Failed to write log: '' @ e @ lit ''. Please contact support.''))]),
          log))) \<and>
   (list_all (\<lambda>(now, customer_id, action). loggable customer_id \<and> loggable action) cs \<longrightarrow>
      record_all cs log = log @ concat (map line_of cs) \<and>
      parse_log (concat (map line_of cs)) = map entry_of cs \<and>
      length (parse_log (concat (map line_of cs))) = length cs) \<and>
   (strip customer_id = [] \<or> strip action = [] \<longrightarrow>
      update_customer_status now io log customer_id action =
        (Inr (VDict [(lit ''success'', VBool False),
                     (lit ''message'', VStr (lit ''customer_id and action are required.''))]), log)) \<and>
   (strip customer_id \<noteq> [] \<and> strip action \<noteq> [] \<and>
    (list_ex surrogate (strip customer_id) \<or> list_ex surrogate (strip action)) \<and>
    (\<forall>e. io \<noteq> OpenFails e) \<longrightarrow>
      update_customer_status now io log customer_id action = (Inl UnicodeEncodeError, log))"
proof -
  have p1: "update_customer_status now Written log customer_id action =
        (Inr (VDict [(lit ''success'', VBool True),
                     (lit ''message'', VStr (lit ''Logged '' @ strip action @ lit '' for '' @ strip customer_id @ lit ''.''))]),
         log @ log_line (isoformat now) (strip customer_id) (strip action))"
    if "loggable customer_id \<and> loggable action"
    using that update_ok by (simp add: loggable_def)
  have p2: "parse_log (log_line (isoformat now) (strip customer_id) (strip action)) =
        [[isoformat now, strip customer_id, strip action]]"
    if "loggable customer_id \<and> loggable action"
  proof -
    have "list_all (\<lambda>(now, customer_id, action). loggable customer_id \<and> loggable action)
            [(now, customer_id, action)]"
      using that by simp
    from parse_log_lines [OF this] show ?thesis by (simp add: line_of_def entry_of_def)
  qed
  have p3: "update_customer_status now (WriteFails e part) log customer_id action =
         (Inr (VDict [(lit ''success'', VBool False),
                      (lit ''message'', VStr (lit ''Failed to write log: '' @ e @ lit ''. Please contact support.''))]),
          log @ part)"
    if "loggable customer_id \<and> loggable action" for e part
    using that update_write_fails [of customer_id action now e part log]
    by (simp add: loggable_def write_failed_def)
  have p4: "update_customer_status now (OpenFails e) log customer_id action =
         (Inr (VDict [(lit ''success'', VBool False),
                      (lit ''message'', VStr (lit ''Failed to write log: '' @ e @ lit ''. Please contact support.''))]),
          log)"
    if "strip customer_id \<noteq> [] \<and> strip action \<noteq> []" for e
    using that update_open_fails [of customer_id action now e log]
    by (simp add: write_failed_def)
  have p5: "record_all cs log = log @ concat (map line_of cs) \<and>
      parse_log (concat (map line_of cs)) = map entry_of cs \<and>
      length (parse_log (concat (map line_of cs))) = length cs"
    if "list_all (\<lambda>(now, customer_id, action). loggable customer_id \<and> loggable action) cs"
    using record_all_appends [OF that] parse_log_lines [OF that] by simp
  have p6: "update_customer_status now io log customer_id action =
        (Inr (VDict [(lit ''success'', VBool False),
                     (lit ''message'', VStr (lit ''customer_id and action are required.''))]), log)"
    if "strip customer_id = [] \<or> strip action = []"
    using that by (rule update_invalid)
  have p7: "update_customer_status now io log customer_id action = (Inl UnicodeEncodeError, log)"
    if "strip customer_id \<noteq> [] \<and> strip action \<noteq> [] \<and>
        (list_ex surrogate (strip customer_id) \<or> list_ex surrogate (strip action)) \<and>
        (\<forall>e. io \<noteq> OpenFails e)"
    using that update_unencodable [of customer_id action io now log] by blast
  from p1 p2 p3 p4 p5 p6 p7 show ?thesis by blast
qed

theorem status_log_round_trip_witness:
  "snd (update_customer_status example_time Written (lit ''old'' @ [10]) (lit '' CUST_001 '') (lit ''cancellation'')) =
     lit ''old'' @ [10] @ lit ''2026-11-03T09:05:00.000120+00:00'' @ [9] @ lit ''CUST_001'' @ [9] @
     lit ''cancellation'' @ [10] \<and>
   update_customer_status example_time (OpenFails (lit ''[Errno 13] Permission denied'')) (lit ''old'' @ [10])
       (lit '' CUST_001 '') (lit ''cancellation'') =
     (Inr (VDict [(lit ''success'', VBool False),
                  (lit ''message'', VStr (lit ''Failed to write log: [Errno 13] Permission denied. Please contact support.''))]),
      lit ''old'' @ [10]) \<and>
   parse_log (record_all example_calls []) =
     [[lit ''2026-11-03T09:05:00.000120+00:00'', lit ''CUST_001'', lit ''cancellation''],
      [lit ''2026-11-03T09:05:07+00:00'', lit ''CUST_002'', lit ''payment pause'']] \<and>
   update_customer_status example_time Written (lit ''old'' @ [10]) (lit ''  '') (lit ''cancellation'') =
     (Inr (VDict [(lit ''success'', VBool False),
                  (lit ''message'', VStr (lit ''customer_id and action are required.''))]), lit ''old'' @ [10]) \<and>
   update_customer_status example_time Written (lit ''old'' @ [10]) (lit ''CUST_001'') (lit ''pause '' @ [55357]) =
     (Inl UnicodeEncodeError, lit ''old'' @ [10])"
proof -
  have h1: "loggable (lit '' CUST_001 '') \<and> loggable (lit ''cancellation'')"
    by code_simp
  have h1': "strip (lit '' CUST_001 '') \<noteq> [] \<and> strip (lit ''cancellation'') \<noteq> []"
    by code_simp
  have h2: "list_all (\<lambda>(now, customer_id, action). loggable customer_id \<and> loggable action) example_calls"
    by code_simp
  have h3: "strip (lit ''  '') = [] \<or> strip (lit ''cancellation'') = []"
    by code_simp
  have h4: "strip (lit ''CUST_001'') \<noteq> [] \<and> strip (lit ''pause '' @ [55357]) \<noteq> [] \<and>
      (list_ex surrogate (strip (lit ''CUST_001'')) \<or> list_ex surrogate (strip (lit ''pause '' @ [55357])))"
    by code_simp
  have h5: "\<forall>e. Written \<noteq> OpenFails e" by simp
  have e1: "log_line (isoformat example_time) (strip (lit '' CUST_001 '')) (strip (lit ''cancellation'')) =
              lit ''2026-11-03T09:05:00.000120+00:00'' @ [9] @ lit ''CUST_001'' @ [9] @ lit ''cancellation'' @ [10]"
    by code_simp
  have e2: "map entry_of example_calls =
     [[lit ''2026-11-03T09:05:00.000120+00:00'', lit ''CUST_001'', lit ''cancellation''],
      [lit ''2026-11-03T09:05:07+00:00'', lit ''CUST_002'', lit ''payment pause'']]"
    by code_simp
  have e3: "lit ''Failed to write log: '' @ lit ''[Errno 13] Permission denied'' @ lit ''. Please contact support.'' =
      lit ''Failed to write log: [Errno 13] Permission denied. Please contact support.''"
    by code_simp
  from status_log_round_trip [where customer_id = "lit '' CUST_001 ''" and action = "lit ''cancellation''"
      and now = example_time and log = "lit ''old'' @ [10]"] h1
  have "snd (update_customer_status example_time Written (lit ''old'' @ [10]) (lit '' CUST_001 '') (lit ''cancellation'')) =
     (lit ''old'' @ [10]) @ log_line (isoformat example_time) (strip (lit '' CUST_001 '')) (strip (lit ''cancellation''))"
    by simp
  then have c1: "snd (update_customer_status example_time Written (lit ''old'' @ [10]) (lit '' CUST_001 '') (lit ''cancellation'')) =
     lit ''old'' @ [10] @ lit ''2026-11-03T09:05:00.000120+00:00'' @ [9] @ lit ''CUST_001'' @ [9] @
     lit ''cancellation'' @ [10]"
    by (simp add: e1)
  from status_log_round_trip [where customer_id = "lit '' CUST_001 ''" and action = "lit ''cancellation''"
      and now = example_time and log = "lit ''old'' @ [10]"] h1'
  have "update_customer_status example_time (OpenFails (lit ''[Errno 13] Permission denied'')) (lit ''old'' @ [10])
       (lit '' CUST_001 '') (lit ''cancellation'') =
     (Inr (VDict [(lit ''success'', VBool False),
                  (lit ''message'', VStr (lit ''Failed to write log: '' @ lit ''[Errno 13] Permission denied'' @
                      lit ''. Please contact support.''))]),
      lit ''old'' @ [10])"
    by blast
  then have c1': "update_customer_status example_time (OpenFails (lit ''[Errno 13] Permission denied'')) (lit ''old'' @ [10])
       (lit '' CUST_001 '') (lit ''cancellation'') =
     (Inr (VDict [(lit ''success'', VBool False),
                  (lit ''message'', VStr (lit ''Failed to write log: [Errno 13] Permission denied. Please contact support.''))]),
      lit ''old'' @ [10])"
    by (simp only: e3)
  from status_log_round_trip [where cs = example_calls and log = "[]"] h2
  have "record_all example_calls [] = [] @ concat (map line_of example_calls) \<and>
        parse_log (concat (map line_of example_calls)) = map entry_of example_calls"
    by blast
  then have c2: "parse_log (record_all example_calls []) =
     [[lit ''2026-11-03T09:05:00.000120+00:00'', lit ''CUST_001'', lit ''cancellation''],
      [lit ''2026-11-03T09:05:07+00:00'', lit ''CUST_002'', lit ''payment pause'']]"
    by (simp add: e2)
  from status_log_round_trip [where customer_id = "lit ''  ''" and action = "lit ''cancellation''"
      and now = example_time and log = "lit ''old'' @ [10]" and io = Written] h3
  have c3: "update_customer_status example_time Written (lit ''old'' @ [10]) (lit ''  '') (lit ''cancellation'') =
     (Inr (VDict [(lit ''success'', VBool False),
                  (lit ''message'', VStr (lit ''customer_id and action are required.''))]), lit ''old'' @ [10])"
    by blast
  from status_log_round_trip [where customer_id = "lit ''CUST_001''" and action = "lit ''pause '' @ [55357]"
      and now = example_time and log = "lit ''old'' @ [10]" and io = Written] h4 h5
  have c4: "update_customer_status example_time Written (lit ''old'' @ [10]) (lit ''CUST_001'') (lit ''pause '' @ [55357]) =
     (Inl UnicodeEncodeError, lit ''old'' @ [10])"
    by blast
  from c1 c1' c2 c3 c4 show ?thesis by blast
qed

text \<open>
  The claim as first stated, for every pair that is not empty after trimming, fails in two
  ways. For an action with a line feed inside, the call succeeds, and what it appends reads
  back as two lines, the second of one field. For an action with a lone surrogate, the call
  returns no result at all: it raises \<open>UnicodeEncodeError\<close> and appends nothing.
\<close>

theorem status_log_counterexample:
  "strip (lit ''CUST_001'') \<noteq> [] \<and> strip (lit ''pause'' @ [10] @ lit ''now'') \<noteq> [] \<and>
   (\<exists>r. fst (update_customer_status example_time Written [] (lit ''CUST_001'') (lit ''pause'' @ [10] @ lit ''now'')) = Inr r \<and>
        field r (lit ''success'') = Some (VBool True)) \<and>
   parse_log (snd (update_customer_status example_time Written [] (lit ''CUST_001'') (lit ''pause'' @ [10] @ lit ''now''))) =
     [[lit ''2026-11-03T09:05:00.000120+00:00'', lit ''CUST_001'', lit ''pause''], [lit ''now'']] \<and>
   strip (lit ''pause '' @ [55357]) \<noteq> [] \<and>
   update_customer_status example_time Written [] (lit ''CUST_001'') (lit ''pause '' @ [55357]) =
     (Inl UnicodeEncodeError, [])"
proof -
  have "fst (update_customer_status example_time Written [] (lit ''CUST_001'') (lit ''pause'' @ [10] @ lit ''now'')) =
      Inr (VDict [(lit ''success'', VBool True),
                  (lit ''message'', VStr (lit ''Logged '' @ (lit ''pause'' @ [10] @ lit ''now'') @ lit '' for '' @ lit ''CUST_001'' @ lit ''.''))]) \<and>
    field (VDict [(lit ''success'', VBool True),
                  (lit ''message'', VStr (lit ''Logged '' @ (lit ''pause'' @ [10] @ lit ''now'') @ lit '' for '' @ lit ''CUST_001'' @ lit ''.''))])
      (lit ''success'') = Some (VBool True)"
    by code_simp
  then have a: "\<exists>r. fst (update_customer_status example_time Written [] (lit ''CUST_001'') (lit ''pause'' @ [10] @ lit ''now'')) = Inr r \<and>
        field r (lit ''success'') = Some (VBool True)"
    by blast
  have b: "strip (lit ''CUST_001'') \<noteq> [] \<and> strip (lit ''pause'' @ [10] @ lit ''now'') \<noteq> [] \<and>
   parse_log (snd (update_customer_status example_time Written [] (lit ''CUST_001'') (lit ''pause'' @ [10] @ lit ''now''))) =
     [[lit ''2026-11-03T09:05:00.000120+00:00'', lit ''CUST_001'', lit ''pause''], [lit ''now'']] \<and>
   strip (lit ''pause '' @ [55357]) \<noteq> [] \<and>
   update_customer_status example_time Written [] (lit ''CUST_001'') (lit ''pause '' @ [55357]) =
     (Inl UnicodeEncodeError, [])"
    by code_simp
  from a b show ?thesis by blast
qed

section \<open>Identifier extraction and customer lookup\<close>









lemma strip_ends: "strip s = [] \<or> (\<not> isspace (hd (strip s)) \<and> \<not> isspace (last (strip s)))"
proof (cases "strip s = []")
  case True
  then show ?thesis by simp
next
  case False
  let ?u = "dropWhile isspace s"
  let ?v = "dropWhile isspace (rev ?u)"
  have st: "strip s = rev ?v" by (simp add: strip_def lstrip_def rstrip_def)
  with False have v: "?v \<noteq> []" by simp
  then have "\<not> isspace (hd ?v)" by (rule hd_dropWhile)
  then have l: "\<not> isspace (last (strip s))" using v by (simp add: st last_rev)
  have "rev ?u = takeWhile isspace (rev ?u) @ ?v" by simp
  then have "last (rev ?u) = last ?v" using v by (metis last_appendR)
  moreover have u: "?u \<noteq> []" using v by (cases ?u) simp_all
  ultimately have "last ?v = hd ?u" by (simp add: last_rev)
  moreover have "\<not> isspace (hd ?u)" using u by (rule hd_dropWhile)
  ultimately have "\<not> isspace (hd (strip s))" using v by (simp add: st hd_rev)
  with l show ?thesis by simp
qed

lemma strip_id: "s \<noteq> [] \<Longrightarrow> \<not> isspace (hd s) \<Longrightarrow> \<not> isspace (last s) \<Longrightarrow> strip s = s"
proof -
  assume a: "s \<noteq> []" "\<not> isspace (hd s)" "\<not> isspace (last s)"
  then have "dropWhile isspace s = s" by (cases s) auto
  moreover have "dropWhile isspace (rev s) = rev s"
    using a by (cases "rev s") (auto simp: hd_rev [symmetric])
  ultimately show ?thesis by (simp add: strip_def lstrip_def rstrip_def)
qed

lemma strip_Nil: "strip [] = []"
  by (simp add: strip_def lstrip_def rstrip_def)

lemma strip_strip: "strip (strip s) = strip s"
proof (cases "strip s = []")
  case True
  then show ?thesis by (simp add: strip_Nil)
next
  case False
  with strip_ends [of s] show ?thesis by (simp add: strip_id)
qed













lemma extract_strip: "strip raw \<noteq> [] \<Longrightarrow> extract_email_or_cust_id w (strip raw) = extract_email_or_cust_id w raw"
  by (auto simp: extract_email_or_cust_id_def strip_strip strip_Nil)








text \<open>
  Claim C6, as amended. For every input from which no identifier is extractable and which,
  trimmed, holds no \<open>@\<close> and does not start with \<open>cust_\<close> (in any case), the lookup returns
  \<open>found = False\<close> with a guidance message and leaves the cache of the directory as it was:
  the result is the same for every directory, which is not read.
\<close>

theorem lookup_rejects_without_directory:
  assumes "extract_email_or_cust_id w email = None"
    and "64 \<notin> set (strip email)"
    and "\<not> startswith (lower (strip email)) (lit ''cust_'')"
  shows "get_customer_data w fs c email =
           (not_found (if strip email = [] then lit ''No email or customer_id provided.''
                       else invalid_input_message), c)"
proof (cases "strip email = []")
  case True
  then show ?thesis by (simp add: get_customer_data_def)
next
  case False
  with assms(1) have "extract_email_or_cust_id w (strip email) = None" by (simp add: extract_strip)
  with False assms(2,3) show ?thesis by (simp add: get_customer_data_def Let_def)
qed

theorem lookup_rejects_without_directory_witness:
  "extract_email_or_cust_id example_alnum (lit '' I want to cancel my plan '') = None \<and>
   get_customer_data example_alnum example_files empty_cache (lit '' I want to cancel my plan '') =
     (not_found invalid_input_message, empty_cache) \<and>
   get_customer_data example_alnum example_files empty_cache (lit ''   '') =
     (not_found (lit ''No email or customer_id provided.''), empty_cache)"
proof -
  have h1: "extract_email_or_cust_id example_alnum (lit '' I want to cancel my plan '') = None"
    and h2: "64 \<notin> set (strip (lit '' I want to cancel my plan ''))"
    and h3: "\<not> startswith (lower (strip (lit '' I want to cancel my plan ''))) (lit ''cust_'')"
    and h4: "strip (lit '' I want to cancel my plan '') \<noteq> []"
    by code_simp+
  have g1: "extract_email_or_cust_id example_alnum (lit ''   '') = None"
    and g2: "64 \<notin> set (strip (lit ''   ''))"
    and g3: "\<not> startswith (lower (strip (lit ''   ''))) (lit ''cust_'')"
    and g4: "strip (lit ''   '') = []"
    by code_simp+
  from lookup_rejects_without_directory [OF h1 h2 h3, of example_files empty_cache] h4
  have "get_customer_data example_alnum example_files empty_cache (lit '' I want to cancel my plan '') =
     (not_found invalid_input_message, empty_cache)" by simp
  moreover
  from lookup_rejects_without_directory [OF g1 g2 g3, of example_files empty_cache] g4
  have "get_customer_data example_alnum example_files empty_cache (lit ''   '') =
     (not_found (lit ''No email or customer_id provided.''), empty_cache)" by simp
  ultimately show ?thesis using h1 by simp
qed

text \<open>
  The claim as first stated, for every input without an extractable identifier, fails for
  \<open>ops@intranet\<close>: the email pattern does not match it (no dot and top-level domain), yet it
  holds an \<open>@\<close>, so the directory is loaded and searched, and a row with that email is
  returned as found.
\<close>

theorem lookup_consults_directory_counterexample:
  "extract_email_or_cust_id example_alnum (lit ''ops@intranet'') = None \<and>
   field (fst (get_customer_data example_alnum intranet_files empty_cache (lit ''ops@intranet''))) (lit ''found'') =
     Some (VBool True) \<and>
   field (fst (get_customer_data example_alnum intranet_files empty_cache (lit ''ops@intranet''))) (lit ''customer_id'') =
     Some (VStr (lit ''CUST_042'')) \<and>
   customers_c (snd (get_customer_data example_alnum intranet_files empty_cache (lit ''ops@intranet''))) =
     customers_file intranet_files"
  by code_simp

section \<open>Presentation sanitizer\<close>

lemma sanitize_cases: "sanitize_internal_jargon s = (if has_jargon s then anything_else else s)"
proof (cases "s = []")
  case True
  have "\<not> has_jargon []"
    by (simp add: has_jargon_def strip_Nil lower_def lit_def)
  with True show ?thesis by (simp add: sanitize_internal_jargon_def)
next
  case False
  then show ?thesis by (auto simp: sanitize_internal_jargon_def has_jargon_def Let_def)
qed

lemma anything_else_clean: "\<not> has_jargon anything_else"
  by code_simp

lemma anything_else_short:
  "strip anything_else = anything_else" "finish_if_chopped anything_else = anything_else"
  by code_simp+

lemma sanitize_idem: "sanitize_internal_jargon (sanitize_internal_jargon s) = sanitize_internal_jargon s"
  by (simp add: sanitize_cases anything_else_clean)

lemma rstrip_strip: "rstrip (strip s) = strip s"
proof (cases "strip s = []")
  case True
  then show ?thesis by (simp add: rstrip_def)
next
  case False
  with strip_ends [of s] have "\<not> isspace (last (strip s))" by simp
  with False have "dropWhile isspace (rev (strip s)) = rev (strip s)"
    by (cases "rev (strip s)") (auto simp: hd_rev [symmetric])
  then show ?thesis by (simp add: rstrip_def)
qed

lemma finish_cases:
  "finish_if_chopped text = (if looks_chopped text then rstrip text @ [ellipsis] else text)"
  by (auto simp: finish_if_chopped_def looks_chopped_def Let_def)

lemma display_eq: "extract_message_text rp (VStr s) = sanitize_internal_jargon (finish_if_chopped (strip s))"
  by (simp add: extract_message_text_def)

lemma display_not_chopped:
  assumes "\<not> looks_chopped (strip s)"
  shows "extract_message_text rp (VStr s) = (if has_jargon (strip s) then anything_else else strip s)"
  using assms by (simp add: display_eq finish_cases sanitize_cases)

lemma has_jargon_strip: "has_jargon (strip s) = has_jargon s"
  by (simp add: has_jargon_def strip_strip)

text \<open>
  Claim C5, as amended. The jargon replacement \<open>sanitize_internal_jargon\<close> is idempotent
  and returns unchanged every string without a jargon trigger. The whole sanitizer,
  \<open>extract_message_text\<close> on a string, changes nothing when applied to its own result
  whenever the trimmed text does not look chopped (it is shorter than 200 characters or ends
  in one of \<open>.?!"'\<close>), and it returns the trimmed text when that neither looks chopped nor
  has a jargon trigger.
\<close>

theorem sanitizer_idempotent:
  "sanitize_internal_jargon (sanitize_internal_jargon s) = sanitize_internal_jargon s \<and>
   (\<not> has_jargon s \<longrightarrow> sanitize_internal_jargon s = s) \<and>
   (\<not> looks_chopped (strip s) \<longrightarrow>
      extract_message_text rp (VStr (extract_message_text rp (VStr s))) =
        extract_message_text rp (VStr s)) \<and>
   (\<not> looks_chopped (strip s) \<and> \<not> has_jargon s \<longrightarrow> extract_message_text rp (VStr s) = strip s)"
proof -
  have idem: "extract_message_text rp (VStr (extract_message_text rp (VStr s))) =
                extract_message_text rp (VStr s)"
    if nc: "\<not> looks_chopped (strip s)"
  proof (cases "has_jargon (strip s)")
    case True
    with nc have "extract_message_text rp (VStr s) = anything_else"
      by (simp add: display_not_chopped)
    then show ?thesis
      by (simp add: display_eq anything_else_short sanitize_cases anything_else_clean)
  next
    case False
    with nc have e: "extract_message_text rp (VStr s) = strip s"
      by (simp add: display_not_chopped)
    from nc have "\<not> looks_chopped (strip (strip s))" by (simp add: strip_strip)
    from display_not_chopped [OF this, of rp] False show ?thesis
      by (simp add: e strip_strip has_jargon_strip)
  qed
  have same: "extract_message_text rp (VStr s) = strip s"
    if "\<not> looks_chopped (strip s) \<and> \<not> has_jargon s"
    using that by (simp add: display_not_chopped has_jargon_strip)
  from idem same show ?thesis
    by (simp add: sanitize_idem sanitize_cases)
qed

theorem sanitizer_idempotent_witness:
  "extract_message_text (\<lambda>v. []) (VStr (lit ''  Your Route has been set to end  '')) = anything_else \<and>
   extract_message_text (\<lambda>v. []) (VStr (extract_message_text (\<lambda>v. [])
       (VStr (lit ''  Your Route has been set to end  '')))) = anything_else \<and>
   sanitize_internal_jargon (lit '' Hello there. '') = lit '' Hello there. '' \<and>
   extract_message_text (\<lambda>v. []) (VStr (lit '' Hello there. '')) = lit ''Hello there.''"
proof -
  let ?s = "lit ''  Your Route has been set to end  ''"
  let ?t = "lit '' Hello there. ''"
  have h1: "\<not> looks_chopped (strip ?s)" by code_simp
  have h2: "\<not> has_jargon ?t" by code_simp
  have h3: "\<not> looks_chopped (strip ?t) \<and> \<not> has_jargon ?t" by code_simp
  have e1: "extract_message_text (\<lambda>v. []) (VStr ?s) = anything_else" by code_simp
  have e2: "strip ?t = lit ''Hello there.''" by code_simp
  from sanitizer_idempotent [of ?s "\<lambda>v. []"] h1
  have "extract_message_text (\<lambda>v. []) (VStr (extract_message_text (\<lambda>v. []) (VStr ?s))) =
          extract_message_text (\<lambda>v. []) (VStr ?s)"
    by blast
  then have c1: "extract_message_text (\<lambda>v. []) (VStr (extract_message_text (\<lambda>v. []) (VStr ?s))) =
          anything_else"
    by (simp only: e1)
  from sanitizer_idempotent [of ?t "\<lambda>v. []"] h2 h3
  have "sanitize_internal_jargon ?t = ?t \<and> extract_message_text (\<lambda>v. []) (VStr ?t) = strip ?t"
    by blast
  with e1 e2 c1 show ?thesis by simp
qed

lemma isin_mem: "isin p t \<Longrightarrow> x \<in> set p \<Longrightarrow> x \<in> set t"
proof (induction t)
  case Nil
  then show ?case by simp
next
  case (Cons c cs)
  show ?case
  proof (cases "startswith (c # cs) p")
    case True
    then have "p = take (length p) (c # cs)" by (simp add: startswith_def)
    then have "set p \<subseteq> set (c # cs)" by (metis set_take_subset)
    with Cons.prems show ?thesis by blast
  next
    case False
    with Cons show ?thesis by auto
  qed
qed

lemma no_t_no_jargon:
  assumes "116 \<notin> set (lower (strip text))"
  shows "\<not> has_jargon text"
proof -
  have "\<not> isin p (lower (strip text))" if "116 \<in> set p" for p
    using that assms isin_mem by blast
  then show ?thesis by (simp add: has_jargon_def lit_def Let_def)
qed

lemma chopped_twice:
  assumes "200 \<le> length t" and "\<not> isspace (hd t)" and "\<not> isspace (last t)"
    and "last t \<notin> set sentence_end" and "116 \<notin> set (lower t)"
  shows "extract_message_text rp (VStr t) = t @ [ellipsis]"
    and "extract_message_text rp (VStr (t @ [ellipsis])) = t @ [ellipsis, ellipsis]"
proof -
  have ne: "t \<noteq> []" using assms(1) by auto
  have st: "strip t = t" using ne assms(2,3) by (rule strip_id)
  have e: "\<not> isspace ellipsis" "ellipsis \<notin> set sentence_end" "lower_char ellipsis \<noteq> 116"
    by (simp_all add: ellipsis_def isspace_def sentence_end_def lower_char_def)
  have st1: "strip (t @ [ellipsis]) = t @ [ellipsis]"
    using ne assms(2) e(1) by (intro strip_id) simp_all
  have rs: "rstrip t = t" using rstrip_strip [of t] by (simp add: st)
  have rs1: "rstrip (t @ [ellipsis]) = t @ [ellipsis]"
    using rstrip_strip [of "t @ [ellipsis]"] by (simp only: st1)
  have c: "looks_chopped t" using assms(1,4) ne by (simp add: looks_chopped_def rs)
  have c1: "looks_chopped (t @ [ellipsis])"
    using assms(1) e(2) by (simp add: looks_chopped_def rs1)
  have j1: "\<not> has_jargon (t @ [ellipsis])"
    using assms(5) e(3) by (intro no_t_no_jargon) (simp add: st1 lower_def)
  have j2: "\<not> has_jargon (t @ [ellipsis, ellipsis])"
  proof (rule no_t_no_jargon)
    have "strip (t @ [ellipsis, ellipsis]) = t @ [ellipsis, ellipsis]"
      using ne assms(2) e(1) by (intro strip_id) simp_all
    then show "116 \<notin> set (lower (strip (t @ [ellipsis, ellipsis])))"
      using assms(5) e(3) by (simp add: lower_def)
  qed
  show "extract_message_text rp (VStr t) = t @ [ellipsis]"
    using c j1 by (simp add: display_eq st finish_cases rs sanitize_cases)
  show "extract_message_text rp (VStr (t @ [ellipsis])) = t @ [ellipsis, ellipsis]"
    using c1 j2 by (simp add: display_eq st1 finish_cases rs1 sanitize_cases)
qed

text \<open>
  The claim as first stated fails twice. On 200 letters \<open>a\<close> the sanitizer appends an
  ellipsis, and on its own result a second one, since the ellipsis is not among the
  characters that end a sentence. And the text \<open>" ok"\<close>, which matches no trigger, is
  returned trimmed.
\<close>

theorem sanitizer_idempotent_counterexample:
  "extract_message_text (\<lambda>v. []) (VStr (replicate 200 97)) = replicate 200 97 @ [ellipsis] \<and>
   extract_message_text (\<lambda>v. []) (VStr (extract_message_text (\<lambda>v. []) (VStr (replicate 200 97)))) =
     replicate 200 97 @ [ellipsis, ellipsis] \<and>
   extract_message_text (\<lambda>v. []) (VStr (extract_message_text (\<lambda>v. []) (VStr (replicate 200 97)))) \<noteq>
     extract_message_text (\<lambda>v. []) (VStr (replicate 200 97)) \<and>
   \<not> has_jargon (lit '' ok'') \<and> \<not> looks_chopped (lit '' ok'') \<and>
   extract_message_text (\<lambda>v. []) (VStr (lit '' ok'')) \<noteq> lit '' ok''"
proof -
  let ?t = "replicate 200 (97 :: nat)"
  have a: "200 \<le> length ?t" "\<not> isspace (hd ?t)" "\<not> isspace (last ?t)"
    "last ?t \<notin> set sentence_end" "116 \<notin> set (lower ?t)"
    by (simp_all add: isspace_def sentence_end_def lower_def lower_char_def)
  note r = chopped_twice [OF a, of "\<lambda>v. []"]
  have small: "\<not> has_jargon (lit '' ok'') \<and> \<not> looks_chopped (lit '' ok'') \<and>
     extract_message_text (\<lambda>v. []) (VStr (lit '' ok'')) \<noteq> lit '' ok''"
    by code_simp
  from r small show ?thesis by simp
qed

section \<open>Routing after the Greeter\<close>

lemma find_append:
  "List.find P (xs @ ys) = (case List.find P xs of None \<Rightarrow> List.find P ys | Some x \<Rightarrow> Some x)"
  by (induction xs) auto

lemma find_none: "(\<And>x. x \<in> set xs \<Longrightarrow> \<not> P x) \<Longrightarrow> List.find P xs = None"
  by (induction xs) auto

lemma last_user_text_latest:
  assumes "ms = pre @ HumanMessage c # post" and "truthy c"
    and "\<And>m. m \<in> set post \<Longrightarrow> \<not> is_user_text m"
  shows "last_user_text rp True ms = lower (py_str rp c)"
proof -
  have "List.find is_user_text (rev post) = None"
    using assms(3) by (intro find_none) simp
  moreover have "is_user_text (HumanMessage c)" using assms(2) by (simp add: is_user_text_def)
  ultimately have "List.find is_user_text (rev ms) = Some (HumanMessage c)"
    by (simp add: assms(1) find_append)
  then show ?thesis
    by (cases c) (simp_all add: last_user_text_def py_str_def)
qed

lemma spec_words_sub: "any_in spec_device_words t \<Longrightarrow> any_in device_words t"
  by (auto simp: any_in_def spec_device_words_def device_words_def list_ex_iff)

text \<open>
  Claim C2. For every state leaving the Greeter whose latest user message with a content
  holds, in lower case, a device-fault keyword of the specification and a cancel-intent
  keyword, the routing function dispatches to the Problem Solver, whatever route the model
  chose.
\<close>

theorem device_cancel_forces_retention:
  assumes "messages st = pre @ HumanMessage c # post" and "truthy c"
    and "\<forall>m \<in> set post. \<not> is_user_text m"
    and "any_in spec_device_words (lower (py_str rp c))"
    and "any_in cancel_words (lower (py_str rp c))"
  shows "route_after_greeter rp st = lit ''problem_solver''"
proof -
  from assms(3) have "\<And>m. m \<in> set post \<Longrightarrow> \<not> is_user_text m" by blast
  from last_user_text_latest [OF assms(1,2) this]
  have "last_user_text rp True (messages st) = lower (py_str rp c)" .
  with spec_words_sub [OF assms(4)] assms(5) show ?thesis
    by (simp add: route_after_greeter_def Let_def)
qed

theorem device_cancel_forces_retention_witness:
  "route_hint_of (next_route scenario_b) = lit ''cancel'' \<and>
   route_after_greeter (\<lambda>v. []) scenario_b = lit ''problem_solver''"
proof -
  let ?c = "VStr (lit ''This phone keeps OVERHEATING, want to return it and cancel everything'')"
  let ?post = "[AIMessage (VStr []) [\<lparr> tc_name = lit ''set_route'', tc_args = [(lit ''route'', VStr (lit ''cancel''))] \<rparr>],
                   ToolMessage (lit ''set_route'') (VStr (lit ''Route set to: cancel'')),
                   AIMessage (VStr (lit ''One moment.'')) []]"
  have h1: "messages scenario_b = [] @ HumanMessage ?c # ?post"
    by (simp add: scenario_b_def)
  have h2: "truthy ?c" by code_simp
  have h3: "\<forall>m \<in> set ?post. \<not> is_user_text m" by (simp add: is_user_text_def)
  have h4: "any_in spec_device_words (lower (py_str (\<lambda>v. []) ?c))" by code_simp
  have h5: "any_in cancel_words (lower (py_str (\<lambda>v. []) ?c))" by code_simp
  have r: "route_hint_of (next_route scenario_b) = lit ''cancel''" by code_simp
  from device_cancel_forces_retention [OF h1 h2 h3 h4 h5] r show ?thesis by simp
qed

section \<open>The agent step engine\<close>

lemma loop_round_again:
  assumes "loop_round ev l = Inr (Again l')"
  shows "tool_rounds l' = Suc (tool_rounds l)" and "tool_rounds l' < max_tool_rounds"
  using assms
  by (auto simp: loop_round_def Let_def split: sum.splits prod.splits if_splits)

lemma agent_loop_rule:
  assumes "I l"
    and again: "\<And>l l'. I l \<Longrightarrow> loop_round ev l = Inr (Again l') \<Longrightarrow> I l'"
    and break: "\<And>l l'. I l \<Longrightarrow> loop_round ev l = Inr (Break l') \<Longrightarrow> Q (Inr l')"
    and err: "\<And>l e. I l \<Longrightarrow> loop_round ev l = Inl e \<Longrightarrow> Q (Inl e)"
  shows "\<exists>r. agent_loop ev l = Some r \<and> Q r"
  using assms(1)
proof (induction "max_tool_rounds - tool_rounds l" arbitrary: l rule: less_induct)
  case less
  show ?case
  proof (cases "loop_round ev l")
    case (Inl e)
    with err [OF less.prems] show ?thesis by (subst agent_loop.simps) simp
  next
    case (Inr s)
    show ?thesis
    proof (cases s)
      case (Break l')
      with Inr break [OF less.prems] show ?thesis by (subst agent_loop.simps) simp
    next
      case (Again l')
      with Inr have a: "loop_round ev l = Inr (Again l')" by simp
      from loop_round_again [OF a]
      have "max_tool_rounds - tool_rounds l' < max_tool_rounds - tool_rounds l" by simp
      from less.hyps [OF this again [OF less.prems a]] a show ?thesis
        by (subst agent_loop.simps) simp
    qed
  qed
qed

lemma retry_calls: "invoke_llm_retry ev k = Inr (c, tcs, k') \<Longrightarrow> k < k' \<and> k' \<le> k + 2"
  by (auto simp: invoke_llm_retry_def split: llm_result.splits)

lemma constrained_reply_fields:
  "customer_data_out (constrained_reply ev l fb) = customer_data_out l"
  "tool_rounds (constrained_reply ev l fb) = tool_rounds l"
  "calls (constrained_reply ev l fb) = Suc (calls l)"
  "route (constrained_reply ev l fb) = route l"
  by (auto simp: constrained_reply_def split: llm_result.splits pyval.splits)

lemma synthesize_fields:
  assumes "synthesize ev l = Inr l'"
  shows "customer_data_out l' = customer_data_out l" and "tool_rounds l' = tool_rounds l"
    and "calls l' \<le> calls l + 2"
proof -
  show "customer_data_out l' = customer_data_out l"
    using assms
    by (auto simp: synthesize_def Let_def constrained_reply_fields split: if_splits sum.splits)
  show "tool_rounds l' = tool_rounds l"
    using assms
    by (auto simp: synthesize_def Let_def constrained_reply_fields split: if_splits sum.splits)
  show "calls l' \<le> calls l + 2"
    using assms
    by (auto simp: synthesize_def Let_def constrained_reply_fields split: if_splits sum.splits
          dest!: retry_calls)
qed

lemma synthesize_all:
  "synthesize ev l = Inr l' \<Longrightarrow>
     customer_data_out l' = customer_data_out l \<and> tool_rounds l' = tool_rounds l \<and>
     calls l' \<le> calls l + 2"
  using synthesize_fields by blast

lemma found_result: "is_found_result m \<Longrightarrow> \<exists>n d. m = ToolMessage n (VDict d) \<and> dict_get d (lit ''found'') = VBool True"
  by (auto simp: is_found_result_def split: message.splits pyval.splits)

lemma persist_profile_cases:
  "persist_profile tms cd = cd \<or>
   (\<exists>d. persist_profile tms cd = VDict d \<and> dict_get d (lit ''found'') = VBool True)"
proof (cases "List.find is_found_result tms")
  case None
  then show ?thesis by (simp add: persist_profile_def)
next
  case (Some m)
  then have "is_found_result m" by (auto simp: find_Some_iff)
  from found_result [OF this] Some show ?thesis by (auto simp: persist_profile_def)
qed

lemma found_true: "dict_get d (lit ''found'') = VBool True \<Longrightarrow> has_found (VDict d)"
  by (cases d) (auto simp: has_found_def dict_get_def)

lemma loop_round_fields:
  assumes "loop_round ev l = Inr s" and "s = Break l' \<or> s = Again l'"
  shows "customer_data_out l' = customer_data_out l \<or>
         (\<exists>d. customer_data_out l' = VDict d \<and> dict_get d (lit ''found'') = VBool True)"
    and "tool_rounds l' \<le> Suc (tool_rounds l)"
    and "calls l' \<le> calls l + 2 \<or> (tool_rounds l' = Suc (tool_rounds l) \<and> s = Break l' \<and> calls l' \<le> calls l + 4)"
proof -
  obtain c tcs k where r: "invoke_llm_retry ev (calls l) = Inr (c, tcs, k)"
    using assms(1) by (cases "invoke_llm_retry ev (calls l)") (auto simp: loop_round_def)
  from retry_calls [OF r] have k: "k \<le> calls l + 2" by simp
  show "customer_data_out l' = customer_data_out l \<or>
         (\<exists>d. customer_data_out l' = VDict d \<and> dict_get d (lit ''found'') = VBool True)"
  proof (cases "tcs = []")
    case True
    with assms r show ?thesis by (auto simp: loop_round_def)
  next
    case False
    with assms r obtain rt h tms where
      "scan_tool_calls tcs (route l) (has_status_update l) = Inr (rt, h)"
      "tool_node ev (tool_rounds l) (AIMessage c tcs) = Inr tms"
      by (auto simp: loop_round_def split: sum.splits)
    with assms r False persist_profile_cases [of tms "customer_data_out l"] show ?thesis
      by (auto simp: loop_round_def Let_def split: if_splits sum.splits dest!: synthesize_fields(1))
  qed
  show "tool_rounds l' \<le> Suc (tool_rounds l)"
    using assms r
    by (auto simp: loop_round_def Let_def split: if_splits sum.splits prod.splits
          dest!: synthesize_fields(2))
  show "calls l' \<le> calls l + 2 \<or> (tool_rounds l' = Suc (tool_rounds l) \<and> s = Break l' \<and> calls l' \<le> calls l + 4)"
    using assms r k
    by (auto simp: loop_round_def Let_def split: if_splits sum.splits prod.splits
          dest!: synthesize_all)
qed

lemma billing_repair_fields:
  "customer_data_out (billing_repair ev l) = customer_data_out l"
  "route (billing_repair ev l) = route l"
  by (auto simp: billing_repair_def Let_def split: option.splits llm_result.splits)

lemma prepare_found:
  assumes "has_found (customer_data st)" and "prepare ev st = Inr l0"
  shows "customer_data_out l0 = customer_data st"
  using assms by (auto simp: prepare_def Let_def split: if_splits sum.splits)

lemma prepare_start:
  assumes "prepare ev st = Inr l0"
  shows "tool_rounds l0 = 0" and "calls l0 = 0"
  using assms by (auto simp: prepare_def Let_def split: if_splits sum.splits)

lemma found_or_kept_trans:
  "found_or_kept a b \<Longrightarrow> found_or_kept b c \<Longrightarrow> found_or_kept a c"
  by (auto simp: found_or_kept_def)

lemma found_or_kept_found: "has_found a \<Longrightarrow> found_or_kept a b \<Longrightarrow> has_found b"
  by (auto simp: found_or_kept_def found_true)

lemma agent_loop_profile:
  "\<exists>r. agent_loop ev l = Some r \<and> (\<forall>l'. r = Inr l' \<longrightarrow> found_or_kept (customer_data_out l) (customer_data_out l'))"
proof (rule agent_loop_rule [where I = "\<lambda>x. found_or_kept (customer_data_out l) (customer_data_out x)"])
  show "found_or_kept (customer_data_out l) (customer_data_out l)" by (simp add: found_or_kept_def)
next
  fix x x' assume i: "found_or_kept (customer_data_out l) (customer_data_out x)"
    and r: "loop_round ev x = Inr (Again x')"
  from loop_round_fields(1) [OF r] have "found_or_kept (customer_data_out x) (customer_data_out x')"
    by (simp add: found_or_kept_def)
  with i show "found_or_kept (customer_data_out l) (customer_data_out x')"
    by (rule found_or_kept_trans)
next
  fix x x' assume i: "found_or_kept (customer_data_out l) (customer_data_out x)"
    and r: "loop_round ev x = Inr (Break x')"
  from loop_round_fields(1) [OF r] have "found_or_kept (customer_data_out x) (customer_data_out x')"
    by (simp add: found_or_kept_def)
  with i have "found_or_kept (customer_data_out l) (customer_data_out x')"
    by (rule found_or_kept_trans)
  then show "\<forall>l'. Inr x' = Inr l' \<longrightarrow> found_or_kept (customer_data_out l) (customer_data_out l')"
    by simp
next
  fix x :: locals and e :: error
  show "\<forall>l'. Inl e = Inr l' \<longrightarrow> found_or_kept (customer_data_out l) (customer_data_out l')" by simp
qed

text \<open>
  Claim C3. If the state holds a customer profile with a true \<open>found\<close> on entry and the
  engine returns a state, the returned profile has a true \<open>found\<close> as well: it is the
  profile of the entry or the content of a tool message whose \<open>found\<close> is \<open>True\<close>, never a
  result without it.
\<close>

theorem profile_monotone:
  assumes "has_found (customer_data st)" and "invoke_agent ev st = Some (Inr st')"
  shows "has_found (customer_data st') \<and> found_or_kept (customer_data st) (customer_data st')"
proof -
  from assms(2) obtain l0 where p: "prepare ev st = Inr l0"
    by (cases "prepare ev st") (auto simp: invoke_agent_def)
  from agent_loop_profile [of ev l0] obtain r where
    a: "agent_loop ev l0 = Some r"
    and k: "\<forall>l'. r = Inr l' \<longrightarrow> found_or_kept (customer_data_out l0) (customer_data_out l')"
    by blast
  from assms(2) p a obtain l1 where r: "r = Inr l1"
    and st': "customer_data st' = customer_data_out (billing_repair ev l1)"
    by (cases r) (auto simp: invoke_agent_def Let_def)
  from k r have "found_or_kept (customer_data_out l0) (customer_data_out l1)" by simp
  then have f: "found_or_kept (customer_data st) (customer_data st')"
    by (simp add: st' billing_repair_fields prepare_found [OF assms(1) p])
  with assms(1) show ?thesis by (auto intro: found_or_kept_found)
qed

theorem profile_monotone_witness:
  "has_found (customer_data found_state) \<and>
   field (fst (get_customer_data example_alnum example_files empty_cache (lit ''nobody@example.com''))) (lit ''found'') =
     Some (VBool False) \<and>
   (\<exists>st'. invoke_agent lookup_env found_state = Some (Inr st') \<and> has_found (customer_data st') \<and>
      length (messages st') = 5)"
proof -
  have h: "has_found (customer_data found_state)" by code_simp
  have n: "field (fst (get_customer_data example_alnum example_files empty_cache (lit ''nobody@example.com''))) (lit ''found'') =
     Some (VBool False)" by code_simp
  have e: "(case invoke_agent lookup_env found_state of
              Some (Inr st') \<Rightarrow> length (messages st') = 5 | _ \<Rightarrow> False)"
    by code_simp
  then obtain st' where r: "invoke_agent lookup_env found_state = Some (Inr st')"
    and len: "length (messages st') = 5"
    by (auto split: option.splits sum.splits)
  from profile_monotone [OF h r] have "has_found (customer_data st')" by simp
  with h n r len show ?thesis by blast
qed

lemma agent_loop_bounds:
  assumes "tool_rounds l = 0" and "calls l = 0"
  shows "\<exists>r. agent_loop ev l = Some r \<and>
           (\<forall>l'. r = Inr l' \<longrightarrow> tool_rounds l' \<le> max_tool_rounds \<and> calls l' \<le> 2 * max_tool_rounds + 2)"
proof (rule agent_loop_rule [where I = "\<lambda>x. tool_rounds x < max_tool_rounds \<and> calls x \<le> 2 * tool_rounds x"])
  show "tool_rounds l < max_tool_rounds \<and> calls l \<le> 2 * tool_rounds l"
    using assms by (simp add: max_tool_rounds_def)
next
  fix x x' assume i: "tool_rounds x < max_tool_rounds \<and> calls x \<le> 2 * tool_rounds x"
    and r: "loop_round ev x = Inr (Again x')"
  from loop_round_again [OF r] loop_round_fields(3) [OF r] i
  show "tool_rounds x' < max_tool_rounds \<and> calls x' \<le> 2 * tool_rounds x'" by auto
next
  fix x x' assume i: "tool_rounds x < max_tool_rounds \<and> calls x \<le> 2 * tool_rounds x"
    and r: "loop_round ev x = Inr (Break x')"
  from loop_round_fields(2) [OF r] loop_round_fields(3) [OF r] i
  have "tool_rounds x' \<le> max_tool_rounds \<and> calls x' \<le> 2 * max_tool_rounds + 2" by auto
  then show "\<forall>l'. Inr x' = Inr l' \<longrightarrow> tool_rounds l' \<le> max_tool_rounds \<and> calls l' \<le> 2 * max_tool_rounds + 2"
    by simp
next
  fix x :: locals and e :: error
  show "\<forall>l'. Inl e = Inr l' \<longrightarrow> tool_rounds l' \<le> max_tool_rounds \<and> calls l' \<le> 2 * max_tool_rounds + 2"
    by simp
qed

lemma agent_loop_total: "\<exists>r. agent_loop ev l = Some r"
  using agent_loop_rule [where I = "\<lambda>x. True" and Q = "\<lambda>r. True" and ev = ev and l = l] by simp

lemma invoke_agent_total: "\<exists>r. invoke_agent ev st = Some r"
proof (cases "prepare ev st")
  case (Inl e)
  then show ?thesis by (simp add: invoke_agent_def)
next
  case (Inr l0)
  from agent_loop_total [of ev l0] obtain r where "agent_loop ev l0 = Some r" by blast
  with Inr show ?thesis by (cases r) (simp_all add: invoke_agent_def Let_def)
qed

lemma exit_at_bound:
  assumes "max_tool_rounds \<le> Suc (tool_rounds l)"
    and "invoke_llm_retry ev (calls l) = Inr (c, tcs, k)" and "tcs \<noteq> []" and "\<not> only_set_route tcs"
    and "scan_tool_calls tcs (route l) (has_status_update l) = Inr (rt, h)"
    and "tool_node ev (tool_rounds l) (AIMessage c tcs) = Inr tms"
  shows "agent_loop ev l =
           Some (Inr \<lparr> msgs = msgs l @ [AIMessage c tcs] @ tms,
                       customer_data_out = persist_profile tms (customer_data_out l),
                       route = rt, tool_rounds = Suc (tool_rounds l), has_status_update = h,
                       calls = k \<rparr>)"
  using assms by (subst agent_loop.simps) (simp add: loop_round_def Let_def)

text \<open>
  Claim C1. For every sequence of model responses and tool results the engine returns (a
  state or an error): the loop ends. From the start of the loop the result has counted at
  most 6 tool-exchange rounds and at most 14 requests to the model. And in a round that
  brings the counter to the bound, with tool calls that are not only the routing tool, the
  loop exits with the history as accumulated: the response and the tool messages appended,
  and no further request to the model.
\<close>

theorem tool_rounds_bounded:
  "(\<exists>r. invoke_agent ev st = Some r) \<and>
   (\<forall>l0. prepare ev st = Inr l0 \<longrightarrow>
      (\<exists>r. agent_loop ev l0 = Some r \<and>
         (\<forall>l'. r = Inr l' \<longrightarrow> tool_rounds l' \<le> max_tool_rounds \<and> calls l' \<le> 2 * max_tool_rounds + 2))) \<and>
   (\<forall>l c tcs k rt h tms.
      max_tool_rounds \<le> Suc (tool_rounds l) \<and>
      invoke_llm_retry ev (calls l) = Inr (c, tcs, k) \<and> tcs \<noteq> [] \<and> \<not> only_set_route tcs \<and>
      scan_tool_calls tcs (route l) (has_status_update l) = Inr (rt, h) \<and>
      tool_node ev (tool_rounds l) (AIMessage c tcs) = Inr tms \<longrightarrow>
      agent_loop ev l =
        Some (Inr \<lparr> msgs = msgs l @ [AIMessage c tcs] @ tms,
                    customer_data_out = persist_profile tms (customer_data_out l),
                    route = rt, tool_rounds = Suc (tool_rounds l), has_status_update = h,
                    calls = k \<rparr>))"
proof -
  have a: "\<exists>r. invoke_agent ev st = Some r" by (rule invoke_agent_total)
  have b: "\<exists>r. agent_loop ev l0 = Some r \<and>
         (\<forall>l'. r = Inr l' \<longrightarrow> tool_rounds l' \<le> max_tool_rounds \<and> calls l' \<le> 2 * max_tool_rounds + 2)"
    if "prepare ev st = Inr l0" for l0
    using agent_loop_bounds [OF prepare_start [OF that]] .
  have c: "agent_loop ev l =
        Some (Inr \<lparr> msgs = msgs l @ [AIMessage c tcs] @ tms,
                    customer_data_out = persist_profile tms (customer_data_out l),
                    route = rt, tool_rounds = Suc (tool_rounds l), has_status_update = h,
                    calls = k \<rparr>)"
    if "max_tool_rounds \<le> Suc (tool_rounds l) \<and>
      invoke_llm_retry ev (calls l) = Inr (c, tcs, k) \<and> tcs \<noteq> [] \<and> \<not> only_set_route tcs \<and>
      scan_tool_calls tcs (route l) (has_status_update l) = Inr (rt, h) \<and>
      tool_node ev (tool_rounds l) (AIMessage c tcs) = Inr tms"
    for l :: locals and c tcs k rt h tms
    using that by (intro exit_at_bound) simp_all
  from a b c show ?thesis by blast
qed

theorem tool_rounds_bounded_witness:
  "(\<exists>l0 l'. prepare runaway_env hello_state = Inr l0 \<and> agent_loop runaway_env l0 = Some (Inr l') \<and>
      tool_rounds l' = 6 \<and> calls l' = 6 \<and> length (msgs l') = 13) \<and>
   (\<exists>st'. invoke_agent runaway_env hello_state = Some (Inr st') \<and> length (messages st') = 13) \<and>
   (\<exists>l'. agent_loop runaway_env before_sixth_round = Some (Inr l') \<and>
      msgs l' = msgs before_sixth_round @
        [AIMessage (VStr []) [search_tool_call],
         ToolMessage (lit ''policy_search'') (VStr (lit ''No query or retriever available.''))] \<and>
      calls l' = 6)"
proof -
  have p: "(case prepare runaway_env hello_state of
              Inr l0 \<Rightarrow> (case agent_loop runaway_env l0 of
                           Some (Inr l') \<Rightarrow> tool_rounds l' = 6 \<and> calls l' = 6 \<and> length (msgs l') = 13
                         | _ \<Rightarrow> False)
            | _ \<Rightarrow> False)"
    by code_simp
  then obtain l0 where l0: "prepare runaway_env hello_state = Inr l0"
    by (auto split: sum.splits)
  from tool_rounds_bounded [of runaway_env hello_state] l0
  obtain r where r: "agent_loop runaway_env l0 = Some r" by blast
  with p l0 obtain l' where "r = Inr l'" "tool_rounds l' = 6" "calls l' = 6" "length (msgs l') = 13"
    by (auto split: sum.splits)
  with l0 r have c1: "\<exists>l0 l'. prepare runaway_env hello_state = Inr l0 \<and>
      agent_loop runaway_env l0 = Some (Inr l') \<and>
      tool_rounds l' = 6 \<and> calls l' = 6 \<and> length (msgs l') = 13"
    by blast
  have e: "(case invoke_agent runaway_env hello_state of
              Some (Inr st') \<Rightarrow> length (messages st') = 13 | _ \<Rightarrow> False)"
    by code_simp
  from tool_rounds_bounded [of runaway_env hello_state]
  obtain r' where "invoke_agent runaway_env hello_state = Some r'" by blast
  with e have c2: "\<exists>st'. invoke_agent runaway_env hello_state = Some (Inr st') \<and> length (messages st') = 13"
    by (auto split: sum.splits)
  have h: "max_tool_rounds \<le> Suc (tool_rounds before_sixth_round) \<and>
      invoke_llm_retry runaway_env (calls before_sixth_round) = Inr (VStr [], [search_tool_call], 6) \<and>
      [search_tool_call] \<noteq> [] \<and> \<not> only_set_route [search_tool_call] \<and>
      scan_tool_calls [search_tool_call] (route before_sixth_round) (has_status_update before_sixth_round) =
        Inr (None, False) \<and>
      tool_node runaway_env (tool_rounds before_sixth_round) (AIMessage (VStr []) [search_tool_call]) =
        Inr [ToolMessage (lit ''policy_search'') (VStr (lit ''No query or retriever available.''))]"
    by code_simp
  from tool_rounds_bounded [of runaway_env hello_state] h
  have "agent_loop runaway_env before_sixth_round =
        Some (Inr \<lparr> msgs = msgs before_sixth_round @ [AIMessage (VStr []) [search_tool_call]] @
                      [ToolMessage (lit ''policy_search'') (VStr (lit ''No query or retriever available.''))],
                    customer_data_out = persist_profile
                      [ToolMessage (lit ''policy_search'') (VStr (lit ''No query or retriever available.''))]
                      (customer_data_out before_sixth_round),
                    route = None, tool_rounds = Suc (tool_rounds before_sixth_round),
                    has_status_update = False, calls = 6 \<rparr>)"
    by blast
  then have c3: "\<exists>l'. agent_loop runaway_env before_sixth_round = Some (Inr l') \<and>
      msgs l' = msgs before_sixth_round @
        [AIMessage (VStr []) [search_tool_call],
         ToolMessage (lit ''policy_search'') (VStr (lit ''No query or retriever available.''))] \<and>
      calls l' = 6"
    by simp
  from c1 c2 c3 show ?thesis by blast
qed















end
